theory Spec2Isabelle
  imports Complex_Main
begin

section \<open>Numbers and landmarks\<close>

text \<open>
  The face-mesh view (\<^verbatim>\<open>FaceMeshView\<close>, the largest source file) works on JavaScript
  numbers, which are binary64 floating-point values. A number is modelled by its real
  value, or is one of the three special values; the sign of zero is not modelled. A
  field of a landmark whose \<^verbatim>\<open>typeof\<close> is not \<^verbatim>\<open>"number"\<close> (a missing field, a
  null point) is \<open>NotNumber\<close>.
\<close>

datatype jsnum = Num real | PosInf | NegInf | NaN

datatype jsval = Number jsnum | NotNumber

text \<open>\<^verbatim>\<open>type NormalizedLandmark = { x: number; y: number }\<close>\<close>

datatype NormalizedLandmark = Landmark (px: jsval) (py: jsval)

subsection \<open>Rounding to binary64\<close>

text \<open>
  The result of an arithmetic operation, and the value of a decimal literal, is the
  exact result rounded to the nearest binary64 value, ties to the even significand.
  For a positive magnitude \<open>a\<close>, \<open>binade a\<close> is the exponent \<open>e\<close> with
  \<open>2 ^ e \<le> a < 2 ^ (e + 1)\<close>, found by halving or doubling. The spacing of the
  binary64 values around \<open>a\<close> is \<open>2 ^ (e - 52)\<close>, with \<open>e\<close> not below -1022 (the
  subnormal range has the spacing of the smallest normal binade). A rounded magnitude
  of \<open>2 ^ 1024\<close> or more overflows to an infinity.
\<close>

function halvings :: "real \<Rightarrow> nat" where
  "halvings a = (if 2 \<le> a then Suc (halvings (a / 2)) else 0)"
  by pat_completeness auto
termination
proof (relation "measure (\<lambda>a. nat \<lfloor>a\<rfloor>)")
  show "wf (measure (\<lambda>a::real. nat \<lfloor>a\<rfloor>))" by simp
next
  fix a :: real
  assume a: "2 \<le> a"
  have "a / 2 \<le> a - 1" using a by simp
  then have "\<lfloor>a / 2\<rfloor> \<le> \<lfloor>a - 1\<rfloor>" by (rule floor_mono)
  then have "\<lfloor>a / 2\<rfloor> < \<lfloor>a\<rfloor>" by simp
  moreover have "0 < \<lfloor>a\<rfloor>" using a by simp
  ultimately show "(a / 2, a) \<in> measure (\<lambda>a. nat \<lfloor>a\<rfloor>)" by simp
qed

function doublings :: "real \<Rightarrow> nat" where
  "doublings a = (if 0 < a \<and> a < 1 then Suc (doublings (2 * a)) else 0)"
  by pat_completeness auto
termination
proof (relation "measure (\<lambda>a. nat \<lceil>1 / a\<rceil>)")
  show "wf (measure (\<lambda>a::real. nat \<lceil>1 / a\<rceil>))" by simp
next
  fix a :: real
  assume a: "0 < a \<and> a < 1"
  then have big: "1 < 1 / a" by simp
  then have c2: "2 \<le> \<lceil>1 / a\<rceil>" by (simp add: le_ceiling_iff)
  have "1 / (2 * a) = (1 / a) / 2" by simp
  also have "\<dots> \<le> of_int \<lceil>1 / a\<rceil> / 2" by (simp add: divide_right_mono)
  also have "\<dots> \<le> of_int (\<lceil>1 / a\<rceil> - 1)" using c2 by simp
  finally have "1 / (2 * a) \<le> of_int (\<lceil>1 / a\<rceil> - 1)" .
  then have "\<lceil>1 / (2 * a)\<rceil> \<le> \<lceil>1 / a\<rceil> - 1" by (rule ceiling_le)
  with c2 a show "(2 * a, a) \<in> measure (\<lambda>a. nat \<lceil>1 / a\<rceil>)" by simp
qed

declare halvings.simps [simp del] doublings.simps [simp del]

definition binade :: "real \<Rightarrow> int" where
  "binade a = (if 1 \<le> a then int (halvings a) else - int (doublings a))"

definition pow2 :: "int \<Rightarrow> real" where
  "pow2 e = (if 0 \<le> e then 2 ^ nat e else 1 / 2 ^ nat (- e))"

definition roundHalfEven :: "real \<Rightarrow> int" where
  "roundHalfEven n =
     (let f = \<lfloor>n\<rfloor>; d = n - of_int f
      in if d < 1 / 2 then f else if 1 / 2 < d then f + 1 else if even f then f else f + 1)"

text \<open>The overflow bound \<open>2 ^ 1024\<close>, written out.\<close>

definition overflowBound :: real where
  "overflowBound = 179769313486231590772930519078902473361797697894230657273430081157732675805500963132708477322407536021120113879871393357658789768814416622492847430639474124377767893424865485276302219601246094119453082952085005768838150682342462881473913110540827237163350510684586298239947245938479716304835356329624224137216"

definition round64 :: "real \<Rightarrow> jsnum" where
  "round64 x =
     (if x = 0 then Num 0
      else
        (let a = \<bar>x\<bar>;
             q = pow2 (max (- 1022) (binade a) - 52);
             r = of_int (roundHalfEven (a / q)) * q
         in if overflowBound \<le> r then (if 0 < x then PosInf else NegInf)
            else Num (if 0 < x then r else - r)))"

subsection \<open>Operations on numbers\<close>

text \<open>
  Addition, subtraction and multiplication with the special values of IEEE arithmetic,
  the comparisons \<^verbatim>\<open>>=\<close> and \<^verbatim>\<open><=\<close> (false when an operand is \<open>NaN\<close>), and
  \<^verbatim>\<open>Math.min\<close>, \<^verbatim>\<open>Math.max\<close>, \<^verbatim>\<open>Math.abs\<close> and \<^verbatim>\<open>Number.isFinite\<close>.
\<close>

fun js_add :: "jsnum \<Rightarrow> jsnum \<Rightarrow> jsnum" where
  "js_add NaN _ = NaN"
| "js_add _ NaN = NaN"
| "js_add PosInf NegInf = NaN"
| "js_add NegInf PosInf = NaN"
| "js_add PosInf _ = PosInf"
| "js_add _ PosInf = PosInf"
| "js_add NegInf _ = NegInf"
| "js_add _ NegInf = NegInf"
| "js_add (Num a) (Num b) = round64 (a + b)"

fun js_sub :: "jsnum \<Rightarrow> jsnum \<Rightarrow> jsnum" where
  "js_sub NaN _ = NaN"
| "js_sub _ NaN = NaN"
| "js_sub PosInf PosInf = NaN"
| "js_sub NegInf NegInf = NaN"
| "js_sub PosInf _ = PosInf"
| "js_sub _ NegInf = PosInf"
| "js_sub NegInf _ = NegInf"
| "js_sub _ PosInf = NegInf"
| "js_sub (Num a) (Num b) = round64 (a - b)"

fun js_mul :: "jsnum \<Rightarrow> jsnum \<Rightarrow> jsnum" where
  "js_mul NaN _ = NaN"
| "js_mul _ NaN = NaN"
| "js_mul (Num a) (Num b) = round64 (a * b)"
| "js_mul (Num a) PosInf = (if a = 0 then NaN else if 0 < a then PosInf else NegInf)"
| "js_mul (Num a) NegInf = (if a = 0 then NaN else if 0 < a then NegInf else PosInf)"
| "js_mul PosInf (Num b) = (if b = 0 then NaN else if 0 < b then PosInf else NegInf)"
| "js_mul NegInf (Num b) = (if b = 0 then NaN else if 0 < b then NegInf else PosInf)"
| "js_mul PosInf PosInf = PosInf"
| "js_mul NegInf NegInf = PosInf"
| "js_mul PosInf NegInf = NegInf"
| "js_mul NegInf PosInf = NegInf"

fun js_ge :: "jsnum \<Rightarrow> jsnum \<Rightarrow> bool" where
  "js_ge NaN _ = False"
| "js_ge _ NaN = False"
| "js_ge PosInf _ = True"
| "js_ge _ NegInf = True"
| "js_ge NegInf _ = False"
| "js_ge _ PosInf = False"
| "js_ge (Num a) (Num b) = (b \<le> a)"

definition js_le :: "jsnum \<Rightarrow> jsnum \<Rightarrow> bool" where
  "js_le a b = js_ge b a"

fun Math_abs :: "jsnum \<Rightarrow> jsnum" where
  "Math_abs (Num a) = Num \<bar>a\<bar>"
| "Math_abs PosInf = PosInf"
| "Math_abs NegInf = PosInf"
| "Math_abs NaN = NaN"

fun Math_min :: "jsnum \<Rightarrow> jsnum \<Rightarrow> jsnum" where
  "Math_min NaN _ = NaN"
| "Math_min _ NaN = NaN"
| "Math_min NegInf _ = NegInf"
| "Math_min _ NegInf = NegInf"
| "Math_min PosInf b = b"
| "Math_min a PosInf = a"
| "Math_min (Num a) (Num b) = Num (min a b)"

fun Math_max :: "jsnum \<Rightarrow> jsnum \<Rightarrow> jsnum" where
  "Math_max NaN _ = NaN"
| "Math_max _ NaN = NaN"
| "Math_max PosInf _ = PosInf"
| "Math_max _ PosInf = PosInf"
| "Math_max NegInf b = b"
| "Math_max a NegInf = a"
| "Math_max (Num a) (Num b) = Num (max a b)"

fun Number_isFinite :: "jsnum \<Rightarrow> bool" where
  "Number_isFinite (Num _) = True"
| "Number_isFinite _ = False"

section \<open>The alignment evaluator\<close>

text \<open>
  The constant table \<^verbatim>\<open>ALIGNMENT_TARGET\<close>: each constant is the binary64 value of
  its decimal literal.
\<close>

definition minWidth :: jsnum where "minWidth = round64 (34 / 100)"
definition minHeight :: jsnum where "minHeight = round64 (44 / 100)"
definition nearWidth :: jsnum where "nearWidth = round64 (3 / 10)"
definition nearHeight :: jsnum where "nearHeight = round64 (36 / 100)"
definition centerToleranceX :: jsnum where "centerToleranceX = round64 (12 / 100)"
definition centerToleranceY :: jsnum where "centerToleranceY = round64 (12 / 100)"
definition targetCenterY :: jsnum where "targetCenterY = round64 (5 / 10)"

record verdict =
  isAligned :: bool
  isClose :: bool

text \<open>
  The four running bounds of the loop of \<^verbatim>\<open>evaluateAlignment\<close>, in the order
  \<^verbatim>\<open>minX, maxX, minY, maxY\<close>, and one pass of the loop body: a point one of whose
  fields is not a number is skipped.
\<close>

type_synonym bounds = "jsnum \<times> jsnum \<times> jsnum \<times> jsnum"

fun boundsStep :: "NormalizedLandmark \<Rightarrow> bounds \<Rightarrow> bounds" where
  "boundsStep (Landmark (Number a) (Number b)) (minX, maxX, minY, maxY) =
     (Math_min minX a, Math_max maxX a, Math_min minY b, Math_max maxY b)"
| "boundsStep _ acc = acc"

fun boundsLoop :: "NormalizedLandmark list \<Rightarrow> bounds \<Rightarrow> bounds" where
  "boundsLoop [] acc = acc"
| "boundsLoop (point # rest) acc = boundsLoop rest (boundsStep point acc)"

definition initialBounds :: bounds where
  "initialBounds = (PosInf, NegInf, PosInf, NegInf)"

text \<open>
  After the loop the four bounds are tested with \<^verbatim>\<open>Number.isFinite\<close>; when all four
  are finite, width, height and centre are computed and compared with the constants.
\<close>

fun verdictOfBounds :: "bounds \<Rightarrow> verdict" where
  "verdictOfBounds (minX, maxX, minY, maxY) =
     (if \<not> Number_isFinite minX \<or> \<not> Number_isFinite maxX \<or>
         \<not> Number_isFinite minY \<or> \<not> Number_isFinite maxY
      then \<lparr> isAligned = False, isClose = False \<rparr>
      else
        (let width = Math_max (Num 0) (js_sub maxX minX);
             height = Math_max (Num 0) (js_sub maxY minY);
             centerX = js_mul (js_add minX maxX) (round64 (5 / 10));
             centerY = js_mul (js_add minY maxY) (round64 (5 / 10))
         in \<lparr> isAligned =
                (js_ge width minWidth \<and> js_ge height minHeight \<and>
                 js_le (Math_abs (js_sub centerX (round64 (5 / 10)))) centerToleranceX \<and>
                 js_le (Math_abs (js_sub centerY targetCenterY)) centerToleranceY),
              isClose = (js_ge width nearWidth \<and> js_ge height nearHeight) \<rparr>))"

definition evaluateAlignment :: "NormalizedLandmark list \<Rightarrow> verdict" where
  "evaluateAlignment landmarks =
     (if landmarks = [] then \<lparr> isAligned = False, isClose = False \<rparr>
      else verdictOfBounds (boundsLoop landmarks initialBounds))"

section \<open>The engagement state\<close>

text \<open>
  The mutable references of the component that the frame loop reads or writes, under the
  names of the references (\<^verbatim>\<open>missCountRef\<close> is \<open>missCount\<close>, and so on). The phase is
  \<^verbatim>\<open>Locked\<close> when \<open>hasAnimationStarted\<close> holds and \<^verbatim>\<open>Guide\<close> otherwise. Frame
  counters are natural numbers. \<open>stream\<close> tells whether \<^verbatim>\<open>streamRef\<close> holds a media
  stream. \<open>captureRequests\<close> records, in order, the calls of \<^verbatim>\<open>captureScreenshot\<close>
  made by the loop, each with its \<^verbatim>\<open>autoUpload\<close> argument. The display state of the
  component (status text and the like) is written by the loop and never read by it; it
  is left out.
\<close>

type_synonym face = "NormalizedLandmark list"

text \<open>
  \<^verbatim>\<open>results.faceLandmarks\<close>: one entry per face; \<open>None\<close> is an entry that is null or
  undefined (a falsy \<^verbatim>\<open>primaryFace\<close>).
\<close>

type_synonym faces = "face option list"

record state =
  isCameraOn :: bool
  stream :: bool
  lastLandmarks :: "faces option"
  missCount :: nat
  animationStart :: "real option"
  disengageCount :: nat
  closeFrameCount :: nat
  hasAnimationStarted :: bool
  guideHighlighted :: bool
  hasAutoCaptured :: bool
  autoCaptureFrameCount :: nat
  captureRequests :: "bool list"

text \<open>
  The frame limits. The first three are constants of the source; the threshold of the
  automatic capture is written there as the literal 60 and is named here as in the
  specification.
\<close>

definition MAX_MISS_COUNT :: nat where "MAX_MISS_COUNT = 45"
definition DISENGAGE_FRAME_LIMIT :: nat where "DISENGAGE_FRAME_LIMIT = 12"
definition CLOSE_UNLOCK_FRAMES :: nat where "CLOSE_UNLOCK_FRAMES = 6"
definition AUTO_CAPTURE_FRAMES :: nat where "AUTO_CAPTURE_FRAMES = 60"

text \<open>The state of a freshly mounted component: the initial values of the references.\<close>

definition mounted :: state where
  "mounted = \<lparr> isCameraOn = False, stream = False, lastLandmarks = None, missCount = 0,
     animationStart = None, disengageCount = 0, closeFrameCount = 0,
     hasAnimationStarted = False, guideHighlighted = False, hasAutoCaptured = False,
     autoCaptureFrameCount = 0, captureRequests = [] \<rparr>"

text \<open>
  \<^verbatim>\<open>revertToGuide\<close>: outside \<^verbatim>\<open>Locked\<close> only the status text changes; otherwise the
  fields it assigns are exactly those below.
\<close>

definition revertToGuide :: "state \<Rightarrow> state" where
  "revertToGuide s =
     (if \<not> hasAnimationStarted s then s
      else s\<lparr> hasAnimationStarted := False, animationStart := None, disengageCount := 0,
              closeFrameCount := 0, lastLandmarks := None, missCount := 0,
              guideHighlighted := False \<rparr>)"

text \<open>
  \<^verbatim>\<open>stopCamera\<close>: returns at once when the camera is off and no stream is held;
  otherwise every field of the engagement state is reset.
\<close>

definition stopCamera :: "state \<Rightarrow> state" where
  "stopCamera s =
     (if \<not> isCameraOn s \<and> \<not> stream s then s
      else s\<lparr> isCameraOn := False, stream := False, missCount := 0, lastLandmarks := None,
              animationStart := None, disengageCount := 0, closeFrameCount := 0,
              hasAnimationStarted := False, guideHighlighted := False,
              hasAutoCaptured := False, autoCaptureFrameCount := 0 \<rparr>)"

text \<open>
  \<^verbatim>\<open>startCamera\<close> depends on the environment: the model may not be loaded, the camera
  may be refused, the video element may be missing, or playback may fail once the stream
  is stored. The last two failures happen inside the \<^verbatim>\<open>try\<close> block, whose handler
  calls \<^verbatim>\<open>stopCamera\<close>. On success the references are reset and the first loop
  iteration is started; the iterations are fed to \<open>runFrames\<close> below.
\<close>

datatype startOutcome = NotReady | MediaRefused | NoVideoElement | PlayFails | Started

fun startCamera :: "startOutcome \<Rightarrow> state \<Rightarrow> state" where
  "startCamera NotReady s = s"
| "startCamera MediaRefused s = stopCamera s"
| "startCamera NoVideoElement s = s"
| "startCamera PlayFails s = stopCamera (s\<lparr> stream := True \<rparr>)"
| "startCamera Started s =
     s\<lparr> stream := True, lastLandmarks := None, missCount := 0, isCameraOn := True,
        hasAnimationStarted := False, guideHighlighted := False, hasAutoCaptured := False,
        autoCaptureFrameCount := 0, disengageCount := 0, closeFrameCount := 0,
        animationStart := None \<rparr>"

section \<open>The frame loop\<close>

text \<open>
  What one iteration of \<^verbatim>\<open>renderLoop\<close> meets: whether bundle, video and canvas exist,
  whether the video has data, whether the canvas gives a context; the time
  \<^verbatim>\<open>performance.now()\<close>; and what \<^verbatim>\<open>detectForVideo\<close> does. A result without a
  non-empty \<^verbatim>\<open>faceLandmarks\<close> array is \<open>DetectResult []\<close>.
\<close>

datatype readiness = MissingRefs | VideoNotReady | NoContext | Ready

datatype detection = DetectThrows | DetectResult faces

record frame =
  readiness :: readiness
  now :: real
  detection :: detection

text \<open>The increment of \<open>disengageCount\<close> followed by the test against the limit.\<close>

definition disengage :: "state \<Rightarrow> state" where
  "disengage s =
     (let s1 = s\<lparr> disengageCount := disengageCount s + 1 \<rparr>
      in if disengageCount s1 > DISENGAGE_FRAME_LIMIT then revertToGuide s1 else s1)"

text \<open>The branch for a face with a verdict while the mesh is not yet unlocked.\<close>

definition guideUpdate :: "real \<Rightarrow> verdict \<Rightarrow> state \<Rightarrow> state" where
  "guideUpdate t v s =
     (let s1 = s\<lparr> disengageCount := 0 \<rparr>;
          s2 = (if guideHighlighted s1 \<noteq> isClose v
                then s1\<lparr> guideHighlighted := isClose v \<rparr> else s1);
          s3 = (if isClose v then s2\<lparr> closeFrameCount := closeFrameCount s2 + 1 \<rparr>
                else s2\<lparr> closeFrameCount := 0 \<rparr>)
      in if isAligned v \<or> closeFrameCount s3 \<ge> CLOSE_UNLOCK_FRAMES
         then s3\<lparr> hasAnimationStarted := True, guideHighlighted := False,
                  animationStart := Some t, disengageCount := 0, closeFrameCount := 0 \<rparr>
         else s3)"

text \<open>The branch for a face with a verdict while the mesh is unlocked.\<close>

definition lockedUpdate :: "verdict \<Rightarrow> state \<Rightarrow> state" where
  "lockedUpdate v s =
     (if isClose v then
        (let s1 = s\<lparr> disengageCount := 0, closeFrameCount := 0 \<rparr>
         in if \<not> hasAutoCaptured s1 then
              (let s2 = s1\<lparr> autoCaptureFrameCount := autoCaptureFrameCount s1 + 1 \<rparr>
               in if autoCaptureFrameCount s2 \<ge> AUTO_CAPTURE_FRAMES
                  then s2\<lparr> hasAutoCaptured := True,
                           captureRequests := captureRequests s2 @ [True] \<rparr>
                  else s2)
            else s1)
      else
        (let s1 = s\<lparr> disengageCount := disengageCount s + 1, autoCaptureFrameCount := 0 \<rparr>
         in if disengageCount s1 > DISENGAGE_FRAME_LIMIT then revertToGuide s1 else s1))"

text \<open>
  The chain of branches on the detection result, from
  \<^verbatim>\<open>if (results?.faceLandmarks?.length)\<close> to the end of the chain.
\<close>

definition applyDetection :: "real \<Rightarrow> faces \<Rightarrow> state \<Rightarrow> state" where
  "applyDetection t fl s =
     (case fl of
        primary # _ \<Rightarrow>
          (let s1 = s\<lparr> lastLandmarks := Some fl, missCount := 0 \<rparr>
           in case primary of
                Some primaryFace \<Rightarrow>
                  (let v = evaluateAlignment primaryFace
                   in if \<not> hasAnimationStarted s1 then guideUpdate t v s1
                      else lockedUpdate v s1)
              | None \<Rightarrow> if hasAnimationStarted s1 then disengage s1 else s1)
      | [] \<Rightarrow>
          (if lastLandmarks s \<noteq> None then
             (let s1 = s\<lparr> missCount := missCount s + 1 \<rparr>;
                  s2 = (if hasAnimationStarted s1 then disengage s1 else s1)
              in if missCount s2 > MAX_MISS_COUNT then s2\<lparr> lastLandmarks := None \<rparr> else s2)
           else if \<not> hasAnimationStarted s \<and> guideHighlighted s then
             s\<lparr> guideHighlighted := False, closeFrameCount := 0 \<rparr>
           else s))"

text \<open>
  One iteration of \<^verbatim>\<open>renderLoop\<close>. The second component tells whether the iteration
  has requested the next animation frame. \<open>startClock\<close> is the assignment of
  \<^verbatim>\<open>now\<close> to \<^verbatim>\<open>animationStartRef\<close> when that is null, made before the detection.
\<close>

definition startClock :: "real \<Rightarrow> state \<Rightarrow> state" where
  "startClock t s = (if animationStart s = None then s\<lparr> animationStart := Some t \<rparr> else s)"

definition renderLoop :: "frame \<Rightarrow> state \<Rightarrow> state \<times> bool" where
  "renderLoop f s =
     (if \<not> isCameraOn s then (s, False)
      else case readiness f of
             MissingRefs \<Rightarrow> (s, True)
           | VideoNotReady \<Rightarrow> (s, True)
           | NoContext \<Rightarrow> (s, True)
           | Ready \<Rightarrow>
               (let s1 = startClock (now f) s
                in case detection f of
                     DetectThrows \<Rightarrow> (s1, True)
                   | DetectResult fl \<Rightarrow>
                       (let s2 = applyDetection (now f) fl s1 in (s2, isCameraOn s2))))"

text \<open>
  The loop over a sequence of animation frames: it goes on as long as each iteration
  requests the next one.
\<close>

fun runFrames :: "frame list \<Rightarrow> state \<Rightarrow> state" where
  "runFrames [] s = s"
| "runFrames (f # fs) s =
     (case renderLoop f s of (s', again) \<Rightarrow> if again then runFrames fs s' else s')"

section \<open>The capture pipeline\<close>

text \<open>
  The part of \<^verbatim>\<open>captureScreenshot\<close> that produces the image. The video frame and the
  canvas are browser objects; the model keeps of them what the capture uses. A video
  frame has its pixel size (\<^verbatim>\<open>videoWidth\<close>, \<^verbatim>\<open>videoHeight\<close>) and a colour at every
  normalised position, both coordinates in the unit interval. A canvas has its pixel
  size, the current transformation of its 2D context (the capture only scales, so the
  two scale factors are kept), the stack of saved transformations, and the colour, if
  any, painted at every point of its bitmap, in pixel coordinates. The operations follow
  the canvas interface of the HTML standard: assigning the width or the height resets
  the context and clears the bitmap; \<^verbatim>\<open>drawImage(image, dx, dy, dw, dh)\<close> paints the
  image over the rectangle given in user space, which the current transformation maps to
  the bitmap. Rasterisation to whole pixels is not modelled.
\<close>

type_synonym colour = nat

record image =
  imageWidth :: nat
  imageHeight :: nat
  colourAt :: "real \<Rightarrow> real \<Rightarrow> colour"

record canvas =
  canvasWidth :: nat
  canvasHeight :: nat
  scaleX :: real
  scaleY :: real
  savedScales :: "(real \<times> real) list"
  bitmap :: "real \<Rightarrow> real \<Rightarrow> colour option"

definition setWidth :: "nat \<Rightarrow> canvas \<Rightarrow> canvas" where
  "setWidth w c = c\<lparr> canvasWidth := w, scaleX := 1, scaleY := 1, savedScales := [],
                     bitmap := (\<lambda>_ _. None) \<rparr>"

definition setHeight :: "nat \<Rightarrow> canvas \<Rightarrow> canvas" where
  "setHeight h c = c\<lparr> canvasHeight := h, scaleX := 1, scaleY := 1, savedScales := [],
                      bitmap := (\<lambda>_ _. None) \<rparr>"

definition ctx_save :: "canvas \<Rightarrow> canvas" where
  "ctx_save c = c\<lparr> savedScales := (scaleX c, scaleY c) # savedScales c \<rparr>"

definition ctx_scale :: "real \<Rightarrow> real \<Rightarrow> canvas \<Rightarrow> canvas" where
  "ctx_scale a b c = c\<lparr> scaleX := scaleX c * a, scaleY := scaleY c * b \<rparr>"

definition ctx_restore :: "canvas \<Rightarrow> canvas" where
  "ctx_restore c =
     (case savedScales c of
        [] \<Rightarrow> c
      | (a, b) # rest \<Rightarrow> c\<lparr> scaleX := a, scaleY := b, savedScales := rest \<rparr>)"

definition ctx_drawImage :: "image \<Rightarrow> real \<Rightarrow> real \<Rightarrow> real \<Rightarrow> real \<Rightarrow> canvas \<Rightarrow> canvas" where
  "ctx_drawImage img dx dy dw dh c =
     c\<lparr> bitmap := (\<lambda>X Y.
          if 0 \<le> X \<and> X \<le> real (canvasWidth c) \<and> 0 \<le> Y \<and> Y \<le> real (canvasHeight c) \<and>
             scaleX c \<noteq> 0 \<and> scaleY c \<noteq> 0 \<and> 0 < dw \<and> 0 < dh \<and>
             dx \<le> X / scaleX c \<and> X / scaleX c \<le> dx + dw \<and>
             dy \<le> Y / scaleY c \<and> Y / scaleY c \<le> dy + dh
          then Some (colourAt img ((X / scaleX c - dx) / dw) ((Y / scaleY c - dy) / dh))
          else bitmap c X Y) \<rparr>"

text \<open>
  What the capture meets: the video element with its current frame, if there is one;
  whether the canvas gives a 2D context; whether \<^verbatim>\<open>toBlob\<close> delivers a blob. The
  artifact is the image encoded from the canvas: its size and its pixels.
\<close>

record captureEnv =
  video :: "image option"
  contextAvailable :: bool
  blobAvailable :: bool

record artifact =
  artifactWidth :: nat
  artifactHeight :: nat
  artifactPixels :: "real \<Rightarrow> real \<Rightarrow> colour option"

text \<open>
  \<^verbatim>\<open>captureScreenshot\<close> up to the creation of the blob; the canvas passed in is the one
  kept in \<^verbatim>\<open>captureCanvasRef\<close>, or a new one. \<open>None\<close> stands for each return
  without an artifact: no video, camera off, an empty frame, no context, no blob.
\<close>

definition captureScreenshot :: "state \<Rightarrow> captureEnv \<Rightarrow> canvas \<Rightarrow> artifact option" where
  "captureScreenshot s env captureCanvas0 =
     (case video env of
        None \<Rightarrow> None
      | Some v \<Rightarrow>
          if \<not> isCameraOn s \<or> imageWidth v = 0 \<or> imageHeight v = 0 then None
          else
            (let c1 = setHeight (imageHeight v) (setWidth (imageWidth v) captureCanvas0)
             in if \<not> contextAvailable env then None
                else
                  (let c2 = ctx_save c1;
                       c3 = ctx_scale (- 1) 1 c2;
                       c4 = ctx_drawImage v (- real (canvasWidth c3)) 0
                              (real (canvasWidth c3)) (real (canvasHeight c3)) c3;
                       c5 = ctx_restore c4
                   in if blobAvailable env
                      then Some \<lparr> artifactWidth = canvasWidth c5,
                                  artifactHeight = canvasHeight c5,
                                  artifactPixels = bitmap c5 \<rparr>
                      else None)))"

section \<open>Vocabulary of the properties\<close>

subsection \<open>Bounding boxes\<close>

text \<open>
  The points of a landmark list that the loop of \<^verbatim>\<open>evaluateAlignment\<close> does not skip
  (both fields are numbers), and those among them whose two coordinates are finite.
\<close>

fun numberPairs :: "face \<Rightarrow> (jsnum \<times> jsnum) list" where
  "numberPairs [] = []"
| "numberPairs (Landmark (Number a) (Number b) # rest) = (a, b) # numberPairs rest"
| "numberPairs (_ # rest) = numberPairs rest"

fun finitePair :: "jsnum \<times> jsnum \<Rightarrow> bool" where
  "finitePair (a, b) = (Number_isFinite a \<and> Number_isFinite b)"

fun finitePairs :: "face \<Rightarrow> (real \<times> real) list" where
  "finitePairs [] = []"
| "finitePairs (Landmark (Number (Num a)) (Number (Num b)) # rest) = (a, b) # finitePairs rest"
| "finitePairs (_ # rest) = finitePairs rest"

text \<open>
  The verdict of a bounding box: width and height are the differences of its bounds,
  the centre is the midpoint, and the thresholds are those of the table of the
  specification; differences, midpoint and thresholds are binary64 values.
\<close>

definition boxVerdict :: "real \<Rightarrow> real \<Rightarrow> real \<Rightarrow> real \<Rightarrow> verdict" where
  "boxVerdict minX maxX minY maxY =
     (let width = js_sub (Num maxX) (Num minX);
          height = js_sub (Num maxY) (Num minY);
          centerX = js_mul (js_add (Num minX) (Num maxX)) (round64 (1 / 2));
          centerY = js_mul (js_add (Num minY) (Num maxY)) (round64 (1 / 2))
      in \<lparr> isAligned =
             (js_ge width (round64 (34 / 100)) \<and> js_ge height (round64 (44 / 100)) \<and>
              js_le (Math_abs (js_sub centerX (round64 (1 / 2)))) (round64 (12 / 100)) \<and>
              js_le (Math_abs (js_sub centerY (round64 (1 / 2)))) (round64 (12 / 100))),
           isClose = (js_ge width (round64 (3 / 10)) \<and> js_ge height (round64 (36 / 100))) \<rparr>)"

definition noVerdict :: verdict where
  "noVerdict = \<lparr> isAligned = False, isClose = False \<rparr>"

definition boxOf :: "(real \<times> real) list \<Rightarrow> verdict" where
  "boxOf ps = boxVerdict (Min (set (map fst ps))) (Max (set (map fst ps)))
                         (Min (set (map snd ps))) (Max (set (map snd ps)))"

text \<open>
  The evaluator as the specification words it: the bounding box over all finite pairs,
  and no verdict when there is none.
\<close>

definition spec_evaluateAlignment :: "face \<Rightarrow> verdict" where
  "spec_evaluateAlignment landmarks =
     (if finitePairs landmarks = [] then noVerdict else boxOf (finitePairs landmarks))"

text \<open>
  Bounds that can no longer become finite: a lower bound that is \<open>NegInf\<close> or
  \<open>NaN\<close>, an upper bound that is \<open>PosInf\<close> or \<open>NaN\<close>.
\<close>

fun spoiled :: "bounds \<Rightarrow> bool" where
  "spoiled (minX, maxX, minY, maxY) =
     (minX = NegInf \<or> minX = NaN \<or> maxX = PosInf \<or> maxX = NaN \<or>
      minY = NegInf \<or> minY = NaN \<or> maxY = PosInf \<or> maxY = NaN)"

subsection \<open>Sample faces\<close>

text \<open>
  A face that is close but not aligned, one that is aligned, one that is neither, and
  one with a \<open>NaN\<close> coordinate beside two finite points; their coordinates are
  binary64 values. Two faces at the threshold of closeness, written with decimal
  literals: the box of \<open>thresholdFace\<close> has the width 0.7 - 0.4, that of
  \<open>edgeFace\<close> the width 0.3.
\<close>

definition closeFace :: face where
  "closeFace = [Landmark (Number (Num 0)) (Number (Num 0)),
                Landmark (Number (Num (1 / 2))) (Number (Num (1 / 2)))]"

definition alignedFace :: face where
  "alignedFace = [Landmark (Number (Num (1 / 4))) (Number (Num (1 / 4))),
                  Landmark (Number (Num (3 / 4))) (Number (Num (3 / 4)))]"

definition farFace :: face where
  "farFace = [Landmark (Number (Num (1 / 2))) (Number (Num (1 / 2)))]"

definition mixedFace :: face where
  "mixedFace = [Landmark (Number NaN) (Number (Num (1 / 2))),
                Landmark (Number (Num (1 / 8))) (Number (Num (1 / 8))),
                Landmark (Number (Num (7 / 8))) (Number (Num (7 / 8)))]"

definition thresholdFace :: face where
  "thresholdFace = [Landmark (Number (round64 (4 / 10))) (Number (Num 0)),
                    Landmark (Number (round64 (7 / 10))) (Number (round64 (4 / 10)))]"

definition edgeFace :: face where
  "edgeFace = [Landmark (Number (Num 0)) (Number (Num 0)),
               Landmark (Number (round64 (3 / 10))) (Number (Num (1 / 2)))]"

subsection \<open>Kinds of frames\<close>

text \<open>
  The verdict that an iteration computes: the evaluator applied to the primary face,
  when the iteration gets as far as a detection result that has one.
\<close>

definition primaryVerdict :: "frame \<Rightarrow> verdict option" where
  "primaryVerdict f =
     (if readiness f = Ready then
        (case detection f of
           DetectResult (Some primaryFace # _) \<Rightarrow> Some (evaluateAlignment primaryFace)
         | _ \<Rightarrow> None)
      else None)"

text \<open>Frames with a close face, with a face that is not close, with a close face that is
  not aligned.\<close>

definition closeFrame :: "frame \<Rightarrow> bool" where
  "closeFrame f = (case primaryVerdict f of Some v \<Rightarrow> isClose v | None \<Rightarrow> False)"

definition notCloseFrame :: "frame \<Rightarrow> bool" where
  "notCloseFrame f = (case primaryVerdict f of Some v \<Rightarrow> \<not> isClose v | None \<Rightarrow> False)"

definition closeUnalignedFrame :: "frame \<Rightarrow> bool" where
  "closeUnalignedFrame f =
     (case primaryVerdict f of Some v \<Rightarrow> isClose v \<and> \<not> isAligned v | None \<Rightarrow> False)"

text \<open>
  Frames on which the detection returns and no face is found: no landmarks at all
  (\<open>emptyFrame\<close>), or an entry that is null.
\<close>

definition emptyFrame :: "frame \<Rightarrow> bool" where
  "emptyFrame f = (readiness f = Ready \<and> detection f = DetectResult [])"

definition noFaceFrame :: "frame \<Rightarrow> bool" where
  "noFaceFrame f =
     (readiness f = Ready \<and>
      (case detection f of DetectResult [] \<Rightarrow> True | DetectResult (None # _) \<Rightarrow> True
       | _ \<Rightarrow> False))"

text \<open>Frames on which the detection throws.\<close>

definition throwingFrame :: "frame \<Rightarrow> bool" where
  "throwingFrame f = (readiness f = Ready \<and> detection f = DetectThrows)"

text \<open>
  The list stored in \<open>lastLandmarks\<close> by a frame with landmarks, and the state after
  the first two assignments of that branch.
\<close>

definition detectedFaces :: "frame \<Rightarrow> faces" where
  "detectedFaces f = (case detection f of DetectResult fl \<Rightarrow> fl | DetectThrows \<Rightarrow> [])"

definition seen :: "frame \<Rightarrow> state \<Rightarrow> state" where
  "seen f s = (startClock (now f) s)\<lparr> lastLandmarks := Some (detectedFaces f), missCount := 0 \<rparr>"

subsection \<open>An invariant of the session\<close>

text \<open>
  What holds of every state between \<^verbatim>\<open>startCamera\<close> and \<^verbatim>\<open>stopCamera\<close>: the camera
  is on; while the mesh is unlocked landmarks are retained, misses have been counted as
  disengagement, and the limit has not been passed; in the guide phase the close count
  is below the unlock threshold and is zero unless the guide is highlighted; until the
  capture has fired its counter is below its threshold.
\<close>

definition sessionInv :: "state \<Rightarrow> bool" where
  "sessionInv s =
     (isCameraOn s \<and>
      (hasAnimationStarted s \<longrightarrow>
         lastLandmarks s \<noteq> None \<and> missCount s \<le> disengageCount s \<and>
         disengageCount s \<le> DISENGAGE_FRAME_LIMIT \<and> closeFrameCount s = 0) \<and>
      (\<not> hasAnimationStarted s \<longrightarrow>
         closeFrameCount s < CLOSE_UNLOCK_FRAMES \<and> disengageCount s = 0 \<and>
         (\<not> guideHighlighted s \<longrightarrow> closeFrameCount s = 0)) \<and>
      (\<not> hasAutoCaptured s \<longrightarrow> autoCaptureFrameCount s < AUTO_CAPTURE_FRAMES))"

subsection \<open>Sample frames and states\<close>

text \<open>
  Frames at time 1 with each kind of detection, and the state of a session that has seen
  one aligned frame.
\<close>

definition sampleFrame :: "detection \<Rightarrow> frame" where
  "sampleFrame d = \<lparr> readiness = Ready, now = 1, detection = d \<rparr>"

definition closeSample :: frame where
  "closeSample = sampleFrame (DetectResult [Some closeFace])"

definition alignedSample :: frame where
  "alignedSample = sampleFrame (DetectResult [Some alignedFace])"

definition farSample :: frame where
  "farSample = sampleFrame (DetectResult [Some farFace])"

definition emptySample :: frame where
  "emptySample = sampleFrame (DetectResult [])"

definition throwSample :: frame where
  "throwSample = sampleFrame DetectThrows"

definition lockedSample :: state where
  "lockedSample = runFrames [alignedSample] (startCamera Started mounted)"

text \<open>
  Three more states of a session: after one close frame (guide phase, close count 1);
  after one close frame and 46 frames without landmarks (the retained landmarks have
  just been dropped); after one aligned and one close frame (mesh unlocked, capture
  count 1).
\<close>

definition highlightedSample :: state where
  "highlightedSample = runFrames [closeSample] (startCamera Started mounted)"

definition lostSample :: state where
  "lostSample = runFrames (closeSample # replicate 46 emptySample) (startCamera Started mounted)"

definition trackedSample :: state where
  "trackedSample = runFrames [alignedSample, closeSample] (startCamera Started mounted)"

text \<open>
  A session in which a frame without landmarks follows the aligned and the close frame:
  the mesh is unlocked, the capture count is 1, the disengage count is 1.
\<close>

definition missedSample :: state where
  "missedSample =
     runFrames [alignedSample, closeSample, emptySample] (startCamera Started mounted)"

subsection \<open>Sessions\<close>

text \<open>
  The engagement state is reset: guide phase, latch clear, the four frame counters at 0,
  no retained landmarks, no animation start.
\<close>

definition engagementReset :: "state \<Rightarrow> bool" where
  "engagementReset s =
     (\<not> hasAnimationStarted s \<and> \<not> hasAutoCaptured s \<and> closeFrameCount s = 0 \<and>
      disengageCount s = 0 \<and> missCount s = 0 \<and> autoCaptureFrameCount s = 0 \<and>
      lastLandmarks s = None \<and> animationStart s = None)"

text \<open>
  What can happen to a mounted component: a call of \<^verbatim>\<open>startCamera\<close> with its
  outcome, a call of \<^verbatim>\<open>stopCamera\<close>, a stretch of animation frames.
\<close>

datatype action = StartCamera startOutcome | StopCamera | Frames "frame list"

fun act :: "action \<Rightarrow> state \<Rightarrow> state" where
  "act (StartCamera outcome) s = startCamera outcome s"
| "act StopCamera s = stopCamera s"
| "act (Frames fs) s = runFrames fs s"

fun runActions :: "action list \<Rightarrow> state \<Rightarrow> state" where
  "runActions [] s = s"
| "runActions (a # as) s = runActions as (act a s)"

subsection \<open>A sample capture\<close>

text \<open>
  A video frame of 4 by 2 pixels whose left half has colour 1 and whose right half has
  colour 2, an environment in which the capture succeeds, and a canvas in its default
  state.
\<close>

definition sampleVideo :: image where
  "sampleVideo = \<lparr> imageWidth = 4, imageHeight = 2,
                    colourAt = (\<lambda>u v. if u < 1 / 2 then 1 else 2) \<rparr>"

definition sampleEnv :: captureEnv where
  "sampleEnv = \<lparr> video = Some sampleVideo, contextAvailable = True, blobAvailable = True \<rparr>"

definition sampleCanvas :: canvas where
  "sampleCanvas = \<lparr> canvasWidth = 300, canvasHeight = 150, scaleX = 1, scaleY = 1,
                     savedScales = [], bitmap = (\<lambda>_ _. None) \<rparr>"

section \<open>Binary64 values\<close>

lemma overflowBound_power: "overflowBound = 2 ^ 1024"
  by (simp add: overflowBound_def)

lemmas round64_unfold = binade_def pow2_def roundHalfEven_def halvings.simps doublings.simps
  overflowBound_def

lemma threshold_values:
  "minWidth = Num (6124895493223875 / 18014398509481984)"
  "minHeight = Num (7926335344172073 / 18014398509481984)"
  "nearWidth = Num (5404319552844595 / 18014398509481984)"
  "nearHeight = Num (3242591731706757 / 9007199254740992)"
  "centerToleranceX = Num (1080863910568919 / 9007199254740992)"
  "centerToleranceY = Num (1080863910568919 / 9007199254740992)"
  "targetCenterY = Num (1 / 2)"
  unfolding minWidth_def minHeight_def nearWidth_def nearHeight_def centerToleranceX_def
    centerToleranceY_def targetCenterY_def round64_def Let_def
  by (simp_all add: round64_unfold)

lemma round64_literals:
  "round64 (17 / 50) = Num (6124895493223875 / 18014398509481984)"
  "round64 (11 / 25) = Num (7926335344172073 / 18014398509481984)"
  "round64 (3 / 10) = Num (5404319552844595 / 18014398509481984)"
  "round64 (9 / 25) = Num (3242591731706757 / 9007199254740992)"
  "round64 (3 / 25) = Num (1080863910568919 / 9007199254740992)"
  "round64 (2 / 5) = Num (3602879701896397 / 9007199254740992)"
  "round64 (7 / 10) = Num (3152519739159347 / 4503599627370496)"
  unfolding round64_def Let_def by (simp_all add: round64_unfold)

lemma round64_exact:
  "round64 0 = Num 0"
  "round64 1 = Num 1"
  "round64 (1 / 2) = Num (1 / 2)"
  "round64 (1 / 4) = Num (1 / 4)"
  "round64 (- (1 / 4)) = Num (- (1 / 4))"
  "round64 (3 / 4) = Num (3 / 4)"
  unfolding round64_def Let_def by (simp_all add: round64_unfold)

lemma round64_difference:
  "round64 (2702159776422297 / 9007199254740992) = Num (2702159776422297 / 9007199254740992)"
  "round64 (3602879701896397 / 9007199254740992) = Num (3602879701896397 / 9007199254740992)"
  "round64 (5404319552844595 / 18014398509481984) = Num (5404319552844595 / 18014398509481984)"
  unfolding round64_def Let_def by (simp_all add: round64_unfold)

lemma pow2_pos: "0 < pow2 e"
  by (simp add: pow2_def)

lemma roundHalfEven_nonneg: "0 \<le> n \<Longrightarrow> 0 \<le> roundHalfEven n"
  by (simp add: roundHalfEven_def Let_def)

lemma round64_nonneg: "0 \<le> x \<Longrightarrow> Math_max (Num 0) (round64 x) = round64 x"
proof (cases "x = 0")
  case True
  then show ?thesis by (simp add: round64_def)
next
  case False
  assume "0 \<le> x"
  with False have pos: "0 < x" by simp
  define q where "q = pow2 (max (- 1022) (binade \<bar>x\<bar>) - 52)"
  define r where "r = of_int (roundHalfEven (\<bar>x\<bar> / q)) * q"
  have q: "0 < q" unfolding q_def by (rule pow2_pos)
  then have "0 \<le> \<bar>x\<bar> / q" by simp
  then have "0 \<le> roundHalfEven (\<bar>x\<bar> / q)" by (rule roundHalfEven_nonneg)
  with q have r: "0 \<le> r" unfolding r_def by simp
  have "round64 x = (if overflowBound \<le> r then PosInf else Num r)"
    using pos False by (simp add: round64_def Let_def q_def r_def)
  with r show ?thesis by simp
qed

section \<open>The evaluator and the bounding box\<close>

lemma Math_min_low: "m = NegInf \<or> m = NaN \<Longrightarrow> Math_min m a = NegInf \<or> Math_min m a = NaN"
  by (cases m; cases a; simp)

lemma Math_max_high: "m = PosInf \<or> m = NaN \<Longrightarrow> Math_max m a = PosInf \<or> Math_max m a = NaN"
  by (cases m; cases a; simp)

lemma Math_min_max_nonfinite:
  "\<not> Number_isFinite a \<Longrightarrow>
   Math_min m a = NegInf \<or> Math_min m a = NaN \<or> Math_max n a = PosInf \<or> Math_max n a = NaN"
  by (cases a; cases m; cases n; simp)

lemma spoiled_step: "spoiled acc \<Longrightarrow> spoiled (boundsStep p acc)"
proof (cases "(p, acc)" rule: boundsStep.cases)
  case (1 a b minX maxX minY maxY)
  assume sp: "spoiled acc"
  from 1 have acc: "acc = (minX, maxX, minY, maxY)" and p: "p = Landmark (Number a) (Number b)"
    by simp_all
  from sp acc consider "minX = NegInf \<or> minX = NaN" | "maxX = PosInf \<or> maxX = NaN"
    | "minY = NegInf \<or> minY = NaN" | "maxY = PosInf \<or> maxY = NaN"
    by auto
  then show ?thesis
  proof cases
    case 1
    from Math_min_low[OF this, of a] show ?thesis by (auto simp: acc p)
  next
    case 2
    from Math_max_high[OF this, of a] show ?thesis by (auto simp: acc p)
  next
    case 3
    from Math_min_low[OF this, of b] show ?thesis by (auto simp: acc p)
  next
    case 4
    from Math_max_high[OF this, of b] show ?thesis by (auto simp: acc p)
  qed
qed simp_all

lemma spoiled_loop: "spoiled acc \<Longrightarrow> spoiled (boundsLoop lm acc)"
  by (induction lm arbitrary: acc) (simp_all add: spoiled_step)

lemma spoiled_verdict: "spoiled acc \<Longrightarrow> verdictOfBounds acc = noVerdict"
  by (cases acc rule: verdictOfBounds.cases) (auto simp: noVerdict_def)

lemma nonfinite_spoils:
  "\<not> finitePair (a, b) \<Longrightarrow> spoiled (boundsStep (Landmark (Number a) (Number b)) acc)"
proof -
  assume nf: "\<not> finitePair (a, b)"
  obtain minX maxX minY maxY where acc: "acc = (minX, maxX, minY, maxY)"
    by (cases acc) auto
  from nf consider "\<not> Number_isFinite a" | "\<not> Number_isFinite b" by auto
  then show ?thesis
  proof cases
    case 1
    from Math_min_max_nonfinite[OF this, of minX maxX] show ?thesis by (auto simp: acc)
  next
    case 2
    from Math_min_max_nonfinite[OF this, of minY maxY] show ?thesis by (auto simp: acc)
  qed
qed

lemma nonfinite_loop:
  "\<not> list_all finitePair (numberPairs lm) \<Longrightarrow> spoiled (boundsLoop lm acc)"
proof (induction lm arbitrary: acc rule: numberPairs.induct)
  case 1
  then show ?case by simp
next
  case (2 a b rest)
  show ?case
  proof (cases "finitePair (a, b)")
    case True
    with 2 show ?thesis by simp
  next
    case False
    then show ?thesis using nonfinite_spoils[OF False] spoiled_loop by simp
  qed
qed simp_all

lemma finite_loop:
  "list_all finitePair (numberPairs lm) \<Longrightarrow>
   boundsLoop lm (Num a, Num b, Num c, Num d) =
     (Num (fold min (map fst (finitePairs lm)) a), Num (fold max (map fst (finitePairs lm)) b),
      Num (fold min (map snd (finitePairs lm)) c), Num (fold max (map snd (finitePairs lm)) d))"
proof (induction lm arbitrary: a b c d rule: numberPairs.induct)
  case 1
  then show ?case by simp
next
  case (2 u v rest)
  then obtain x y where "u = Num x" "v = Num y"
    by (cases u; cases v; simp)
  with 2 show ?case by (simp add: min.commute max.commute)
qed simp_all

lemma verdict_of_box:
  assumes "a \<le> b" "c \<le> d"
  shows "verdictOfBounds (Num a, Num b, Num c, Num d) = boxVerdict a b c d"
proof -
  from assms have "0 \<le> b - a" "0 \<le> d - c" by simp_all
  then have "Math_max (Num 0) (round64 (b - a)) = round64 (b - a)"
    "Math_max (Num 0) (round64 (d - c)) = round64 (d - c)"
    by (simp_all add: round64_nonneg)
  then show ?thesis
    by (simp add: boxVerdict_def Let_def minWidth_def minHeight_def nearWidth_def
        nearHeight_def centerToleranceX_def centerToleranceY_def targetCenterY_def)
qed

lemma finite_loop_initial:
  "list_all finitePair (numberPairs lm) \<Longrightarrow> numberPairs lm \<noteq> [] \<Longrightarrow>
   finitePairs lm \<noteq> [] \<and>
   verdictOfBounds (boundsLoop lm initialBounds) = boxOf (finitePairs lm)"
proof (induction lm rule: numberPairs.induct)
  case 1
  then show ?case by simp
next
  case (2 u v rest)
  then obtain x y where uv: "u = Num x" "v = Num y"
    by (cases u; cases v; simp)
  from 2 have fin: "list_all finitePair (numberPairs rest)" by simp
  have mn: "\<And>zs (z::real). fold min zs z = Min (set (z # zs))"
    by (simp only: Min.set_eq_fold)
  have mx: "\<And>zs (z::real). fold max zs z = Max (set (z # zs))"
    by (simp only: Max.set_eq_fold)
  have mm: "\<And>zs (z::real). Min (set (z # zs)) \<le> Max (set (z # zs))"
  proof -
    fix zs and z :: real
    have "Min (set (z # zs)) \<le> z" by (rule Min_le) simp_all
    moreover have "z \<le> Max (set (z # zs))" by (rule Max_ge) simp_all
    ultimately show "Min (set (z # zs)) \<le> Max (set (z # zs))" by (rule order_trans)
  qed
  let ?xs = "map fst (finitePairs rest)" and ?ys = "map snd (finitePairs rest)"
  have loop: "boundsLoop (Landmark (Number u) (Number v) # rest) initialBounds =
      (Num (Min (set (x # ?xs))), Num (Max (set (x # ?xs))),
       Num (Min (set (y # ?ys))), Num (Max (set (y # ?ys))))"
    by (simp only: boundsLoop.simps boundsStep.simps initialBounds_def uv Math_min.simps
        Math_max.simps finite_loop[OF fin] mn mx)
  have fp: "finitePairs (Landmark (Number u) (Number v) # rest) = (x, y) # finitePairs rest"
    by (simp add: uv)
  have box: "boxOf ((x, y) # finitePairs rest) =
      boxVerdict (Min (set (x # ?xs))) (Max (set (x # ?xs)))
                 (Min (set (y # ?ys))) (Max (set (y # ?ys)))"
    by (simp only: boxOf_def list.map fst_conv snd_conv)
  show ?case
    by (simp only: loop fp box verdict_of_box[OF mm mm]) simp
qed (simp_all add: initialBounds_def)

lemma numberPairs_empty_loop: "numberPairs lm = [] \<Longrightarrow> boundsLoop lm acc = acc"
  by (induction lm arbitrary: acc rule: numberPairs.induct) simp_all

text \<open>
  C7, as the code has it. \<^verbatim>\<open>evaluateAlignment\<close> takes the points both of whose fields
  are numbers. When there is none, or when one of them has a coordinate that is
  \<open>NaN\<close> or infinite, the verdict is \<open>isAligned = False, isClose = False\<close>. Otherwise
  the verdict is that of the bounding box of these points: \<open>isClose\<close> when the width is
  at least 0.30 and the height at least 0.36, \<open>isAligned\<close> when the width is at least
  0.34, the height at least 0.44 and the centre within 0.12 of (0.5, 0.5) on each axis,
  where width, height, centre, the distances and the thresholds are the binary64 values
  that the code computes: a box of exact width 0.7 - 0.4 is not close, one whose width is
  the literal 0.3 is.
\<close>

theorem evaluateAlignment_box:
  "evaluateAlignment landmarks =
     (if numberPairs landmarks = [] \<or> \<not> list_all finitePair (numberPairs landmarks)
      then noVerdict else boxOf (finitePairs landmarks))"
proof (cases "numberPairs landmarks = []")
  case True
  then show ?thesis
    by (simp add: evaluateAlignment_def numberPairs_empty_loop initialBounds_def noVerdict_def)
next
  case ne: False
  then have nonempty: "landmarks \<noteq> []" by auto
  show ?thesis
  proof (cases "list_all finitePair (numberPairs landmarks)")
    case True
    with ne nonempty finite_loop_initial[OF True ne] show ?thesis
      by (simp add: evaluateAlignment_def)
  next
    case False
    with ne nonempty spoiled_verdict[OF nonfinite_loop[OF False]] show ?thesis
      by (simp add: evaluateAlignment_def)
  qed
qed



lemmas evaluator_unfold = evaluateAlignment_def initialBounds_def js_le_def Let_def
  threshold_values round64_exact round64_literals round64_difference

lemma sample_verdicts:
  "evaluateAlignment closeFace = \<lparr> isAligned = False, isClose = True \<rparr>"
  "evaluateAlignment alignedFace = \<lparr> isAligned = True, isClose = True \<rparr>"
  "evaluateAlignment farFace = \<lparr> isAligned = False, isClose = False \<rparr>"
  "evaluateAlignment mixedFace = \<lparr> isAligned = False, isClose = False \<rparr>"
  "evaluateAlignment thresholdFace = \<lparr> isAligned = False, isClose = False \<rparr>"
  "evaluateAlignment edgeFace = \<lparr> isAligned = False, isClose = True \<rparr>"
  by (simp_all add: closeFace_def alignedFace_def farFace_def mixedFace_def thresholdFace_def
      edgeFace_def
      evaluator_unfold)

theorem evaluateAlignment_box_witness:
  "numberPairs alignedFace \<noteq> [] \<and> list_all finitePair (numberPairs alignedFace) \<and>
   evaluateAlignment alignedFace = boxOf [(1 / 4, 1 / 4), (3 / 4, 3 / 4)] \<and>
   boxOf [(1 / 4, 1 / 4), (3 / 4, 3 / 4)] = \<lparr> isAligned = True, isClose = True \<rparr> \<and>
   evaluateAlignment mixedFace = noVerdict \<and>
   evaluateAlignment thresholdFace =
     boxOf [(3602879701896397 / 9007199254740992, 0),
            (3152519739159347 / 4503599627370496, 3602879701896397 / 9007199254740992)] \<and>
   \<not> isClose (evaluateAlignment thresholdFace) \<and> isClose (evaluateAlignment edgeFace)"
proof -
  have a: "evaluateAlignment alignedFace = boxOf [(1 / 4, 1 / 4), (3 / 4, 3 / 4)]"
    using evaluateAlignment_box[of alignedFace] by (simp add: alignedFace_def)
  have m: "evaluateAlignment mixedFace = noVerdict"
    using evaluateAlignment_box[of mixedFace] by (simp add: mixedFace_def)
  have t: "evaluateAlignment thresholdFace =
     boxOf [(3602879701896397 / 9007199254740992, 0),
            (3152519739159347 / 4503599627370496, 3602879701896397 / 9007199254740992)]"
    using evaluateAlignment_box[of thresholdFace]
    by (simp add: thresholdFace_def round64_literals)
  have n: "numberPairs alignedFace \<noteq> [] \<and> list_all finitePair (numberPairs alignedFace)"
    by (simp add: alignedFace_def)
  have b: "boxOf [(1 / 4, 1 / 4), (3 / 4, 3 / 4)] = \<lparr> isAligned = True, isClose = True \<rparr>"
    using a sample_verdicts(2) by simp
  have c: "\<not> isClose (evaluateAlignment thresholdFace)"
    by (simp add: sample_verdicts(5))
  have d: "isClose (evaluateAlignment edgeFace)"
    by (simp add: sample_verdicts(6))
  from a b m t n c d show ?thesis by blast
qed

text \<open>
  C7, as the specification words it, fails: of the three points of \<open>mixedFace\<close> two are
  finite and span a box that the specification calls aligned, while the code, whose
  running minimum has become \<open>NaN\<close>, gives no verdict.
\<close>

theorem evaluateAlignment_finite_pairs_counterexample:
  "isAligned (spec_evaluateAlignment mixedFace) \<and> \<not> isAligned (evaluateAlignment mixedFace)"
proof -
  have "isAligned (spec_evaluateAlignment mixedFace)"
    by (simp add: mixedFace_def spec_evaluateAlignment_def boxOf_def boxVerdict_def js_le_def
        round64_exact round64_literals)
  with sample_verdicts(4) show ?thesis by simp
qed

section \<open>Invariant and steps of the frame loop\<close>

lemmas limits = MAX_MISS_COUNT_def DISENGAGE_FRAME_LIMIT_def CLOSE_UNLOCK_FRAMES_def
  AUTO_CAPTURE_FRAMES_def

lemma sessionInv_start: "sessionInv (startCamera Started s0)"
  by (simp add: sessionInv_def limits)

lemma sessionInv_startClock: "sessionInv s \<Longrightarrow> sessionInv (startClock t s)"
  by (simp add: sessionInv_def startClock_def)

lemma sessionInv_guideUpdate:
  "sessionInv s \<Longrightarrow> \<not> hasAnimationStarted s \<Longrightarrow>
   sessionInv (guideUpdate t v (s\<lparr> lastLandmarks := Some fl, missCount := 0 \<rparr>))"
  by (simp add: sessionInv_def guideUpdate_def Let_def limits)

lemma sessionInv_lockedUpdate:
  "sessionInv s \<Longrightarrow> hasAnimationStarted s \<Longrightarrow>
   sessionInv (lockedUpdate v (s\<lparr> lastLandmarks := Some fl, missCount := 0 \<rparr>))"
  by (simp add: sessionInv_def lockedUpdate_def revertToGuide_def Let_def limits)

lemma sessionInv_disengage_face:
  "sessionInv s \<Longrightarrow> hasAnimationStarted s \<Longrightarrow>
   sessionInv (disengage (s\<lparr> lastLandmarks := Some fl, missCount := 0 \<rparr>))"
  by (simp add: sessionInv_def disengage_def revertToGuide_def Let_def limits)

lemma sessionInv_guide_face:
  "sessionInv s \<Longrightarrow> \<not> hasAnimationStarted s \<Longrightarrow>
   sessionInv (s\<lparr> lastLandmarks := Some fl, missCount := 0 \<rparr>)"
  by (simp add: sessionInv_def)

lemma sessionInv_applyDetection: "sessionInv s \<Longrightarrow> sessionInv (applyDetection t fl s)"
proof (cases fl)
  case Nil
  assume inv: "sessionInv s"
  show ?thesis
  proof (cases "hasAnimationStarted s")
    case True
    with inv Nil show ?thesis
      by (simp add: sessionInv_def applyDetection_def disengage_def revertToGuide_def Let_def limits)
  next
    case False
    with inv Nil show ?thesis
      by (simp add: sessionInv_def applyDetection_def Let_def limits)
  qed
next
  case (Cons primary rest)
  assume inv: "sessionInv s"
  show ?thesis
  proof (cases primary)
    case None
    with inv Cons sessionInv_disengage_face[OF inv, of "None # rest"]
      sessionInv_guide_face[OF inv, of "None # rest"]
    show ?thesis by (simp add: applyDetection_def Let_def)
  next
    case (Some primaryFace)
    with inv Cons sessionInv_guideUpdate[OF inv, of t "evaluateAlignment primaryFace" "Some primaryFace # rest"]
      sessionInv_lockedUpdate[OF inv, of "evaluateAlignment primaryFace" "Some primaryFace # rest"]
    show ?thesis by (simp add: applyDetection_def Let_def)
  qed
qed

lemma isCameraOn_applyDetection: "isCameraOn (applyDetection t fl s) = isCameraOn s"
  by (simp add: applyDetection_def guideUpdate_def lockedUpdate_def disengage_def
      revertToGuide_def Let_def split: list.splits option.splits)

lemma renderLoop_camera:
  "isCameraOn s \<Longrightarrow> isCameraOn (fst (renderLoop f s)) \<and> snd (renderLoop f s)"
  by (simp add: renderLoop_def startClock_def isCameraOn_applyDetection Let_def
      split: readiness.splits detection.splits)

lemma sessionInv_step: "sessionInv s \<Longrightarrow> sessionInv (fst (renderLoop f s))"
  by (simp add: renderLoop_def Let_def sessionInv_startClock sessionInv_applyDetection
      split: readiness.splits detection.splits)

lemma sessionInv_run: "sessionInv s \<Longrightarrow> sessionInv (runFrames fs s)"
proof (induction fs arbitrary: s)
  case Nil
  then show ?case by simp
next
  case (Cons f fs)
  from Cons.prems have cam: "isCameraOn s" by (simp add: sessionInv_def)
  obtain s' again where step: "renderLoop f s = (s', again)" by (cases "renderLoop f s")
  with renderLoop_camera[OF cam, of f] sessionInv_step[OF Cons.prems, of f]
  have "again" "sessionInv s'" by simp_all
  with Cons.IH[of s'] step show ?case by simp
qed

lemma runFrames_Cons: "isCameraOn s \<Longrightarrow> runFrames (f # fs) s = runFrames fs (fst (renderLoop f s))"
proof -
  assume cam: "isCameraOn s"
  obtain s' again where step: "renderLoop f s = (s', again)" by (cases "renderLoop f s")
  with renderLoop_camera[OF cam, of f] have "again" by simp
  with step show ?thesis by simp
qed

lemma runFrames_off: "\<not> isCameraOn s \<Longrightarrow> runFrames fs s = s"
  by (cases fs) (simp_all add: renderLoop_def)

lemma runFrames_camera: "isCameraOn s \<Longrightarrow> isCameraOn (runFrames fs s)"
proof (induction fs arbitrary: s)
  case Nil
  then show ?case by simp
next
  case (Cons f fs)
  from renderLoop_camera[OF Cons.prems, of f] have "isCameraOn (fst (renderLoop f s))" by simp
  from Cons.IH[OF this] show ?case by (simp only: runFrames_Cons[OF Cons.prems])
qed

lemma runFrames_append: "runFrames (fs @ gs) s = runFrames gs (runFrames fs s)"
proof (cases "isCameraOn s")
  case False
  then show ?thesis by (simp add: runFrames_off)
next
  case True
  then show ?thesis
  proof (induction fs arbitrary: s)
    case Nil
    then show ?case by simp
  next
    case (Cons f fs)
    from renderLoop_camera[OF Cons.prems, of f] have "isCameraOn (fst (renderLoop f s))" by simp
    from Cons.IH[OF this] show ?case
      using runFrames_Cons[OF Cons.prems, of f "fs @ gs"] runFrames_Cons[OF Cons.prems, of f fs]
      by simp
  qed
qed

lemma seen_fields [simp]:
  "isCameraOn (seen f s) = isCameraOn s"
  "hasAnimationStarted (seen f s) = hasAnimationStarted s"
  "disengageCount (seen f s) = disengageCount s"
  "closeFrameCount (seen f s) = closeFrameCount s"
  "autoCaptureFrameCount (seen f s) = autoCaptureFrameCount s"
  "hasAutoCaptured (seen f s) = hasAutoCaptured s"
  "captureRequests (seen f s) = captureRequests s"
  "guideHighlighted (seen f s) = guideHighlighted s"
  "missCount (seen f s) = 0"
  "lastLandmarks (seen f s) = Some (detectedFaces f)"
  by (simp_all add: seen_def startClock_def)

lemma step_ready:
  "isCameraOn s \<Longrightarrow> readiness f = Ready \<Longrightarrow> detection f = DetectResult fl \<Longrightarrow>
   fst (renderLoop f s) = applyDetection (now f) fl (startClock (now f) s)"
  by (simp add: renderLoop_def Let_def)

lemma primaryVerdict_SomeD:
  "primaryVerdict f = Some v \<Longrightarrow>
   readiness f = Ready \<and>
   (\<exists>primaryFace rest. detection f = DetectResult (Some primaryFace # rest) \<and>
      v = evaluateAlignment primaryFace)"
  by (simp add: primaryVerdict_def split: if_splits detection.splits list.splits option.splits)

lemma step_verdict:
  assumes "isCameraOn s" "primaryVerdict f = Some v"
  shows "fst (renderLoop f s) =
     (if hasAnimationStarted s then lockedUpdate v (seen f s)
      else guideUpdate (now f) v (seen f s))"
proof -
  from primaryVerdict_SomeD[OF assms(2)] obtain primaryFace rest where
    r: "readiness f = Ready" and d: "detection f = DetectResult (Some primaryFace # rest)"
    and v: "v = evaluateAlignment primaryFace" by blast
  show ?thesis
    by (simp add: step_ready[OF assms(1) r d] applyDetection_def seen_def detectedFaces_def d v
        Let_def startClock_def)
qed

lemma step_locked_close:
  assumes "isCameraOn s" "hasAnimationStarted s" "closeFrame f"
  shows "fst (renderLoop f s) =
     (if hasAutoCaptured s then (seen f s)\<lparr> disengageCount := 0, closeFrameCount := 0 \<rparr>
      else if autoCaptureFrameCount s + 1 \<ge> 60
      then (seen f s)\<lparr> disengageCount := 0, closeFrameCount := 0,
                        autoCaptureFrameCount := autoCaptureFrameCount s + 1,
                        hasAutoCaptured := True,
                        captureRequests := captureRequests s @ [True] \<rparr>
      else (seen f s)\<lparr> disengageCount := 0, closeFrameCount := 0,
                        autoCaptureFrameCount := autoCaptureFrameCount s + 1 \<rparr>)"
proof -
  from assms(3) obtain v where v: "primaryVerdict f = Some v" "isClose v"
    by (auto simp: closeFrame_def split: option.splits)
  show ?thesis
    using assms(2) v(2)
    by (simp add: step_verdict[OF assms(1) v(1)] lockedUpdate_def Let_def limits)
qed

lemma js_ge_mono: "js_ge w (Num m) \<Longrightarrow> n \<le> m \<Longrightarrow> js_ge w (Num n)"
  by (cases w) simp_all

lemma verdictOfBounds_aligned_close:
  "isAligned (verdictOfBounds b) \<Longrightarrow> isClose (verdictOfBounds b)"
proof (cases b rule: verdictOfBounds.cases)
  case (1 minX maxX minY maxY)
  assume al: "isAligned (verdictOfBounds b)"
  show ?thesis
  proof (cases "Number_isFinite minX \<and> Number_isFinite maxX \<and>
      Number_isFinite minY \<and> Number_isFinite maxY")
    case False
    with al 1 show ?thesis by auto
  next
    case True
    let ?w = "Math_max (Num 0) (js_sub maxX minX)" and ?h = "Math_max (Num 0) (js_sub maxY minY)"
    from al 1 True have w: "js_ge ?w minWidth" and h: "js_ge ?h minHeight"
      by (simp_all add: Let_def)
    from w have "js_ge ?w nearWidth"
      unfolding threshold_values by (rule js_ge_mono) simp
    moreover from h have "js_ge ?h nearHeight"
      unfolding threshold_values by (rule js_ge_mono) simp
    ultimately show ?thesis using 1 True by (simp add: Let_def)
  qed
qed

lemma evaluateAlignment_aligned_close:
  "isAligned (evaluateAlignment lm) \<Longrightarrow> isClose (evaluateAlignment lm)"
  by (cases "lm = []") (simp_all add: evaluateAlignment_def verdictOfBounds_aligned_close)

lemma primaryVerdict_aligned_close:
  "primaryVerdict f = Some v \<Longrightarrow> isAligned v \<Longrightarrow> isClose v"
  using primaryVerdict_SomeD[of f v] evaluateAlignment_aligned_close by blast

lemma step_guide_verdict:
  assumes "isCameraOn s" "\<not> hasAnimationStarted s" "primaryVerdict f = Some v"
  shows "hasAnimationStarted (fst (renderLoop f s)) =
           (isAligned v \<or> (if isClose v then closeFrameCount s + 1 else 0) \<ge> 6)"
    and "hasAnimationStarted (fst (renderLoop f s)) \<Longrightarrow>
           closeFrameCount (fst (renderLoop f s)) = 0 \<and>
           disengageCount (fst (renderLoop f s)) = 0 \<and>
           animationStart (fst (renderLoop f s)) = Some (now f)"
    and "\<not> hasAnimationStarted (fst (renderLoop f s)) \<Longrightarrow>
           closeFrameCount (fst (renderLoop f s)) = (if isClose v then closeFrameCount s + 1 else 0)"
  using assms(2)
  by (simp_all add: step_verdict[OF assms(1) assms(3)] guideUpdate_def Let_def limits
      split: if_splits)

lemma primaryVerdict_NoneD:
  "primaryVerdict f = None \<Longrightarrow>
   readiness f \<noteq> Ready \<or> detection f = DetectThrows \<or> detection f = DetectResult [] \<or>
   (\<exists>rest. detection f = DetectResult (None # rest))"
  by (simp add: primaryVerdict_def split: if_splits detection.splits list.splits option.splits)

lemma step_not_ready: "readiness f \<noteq> Ready \<Longrightarrow> fst (renderLoop f s) = s"
  by (cases "readiness f") (simp_all add: renderLoop_def)

lemma step_throws:
  "isCameraOn s \<Longrightarrow> readiness f = Ready \<Longrightarrow> detection f = DetectThrows \<Longrightarrow>
   renderLoop f s = (startClock (now f) s, True)"
  by (simp add: renderLoop_def Let_def)

lemma step_off: "\<not> isCameraOn s \<Longrightarrow> renderLoop f s = (s, False)"
  by (simp add: renderLoop_def)

lemma startClock_fields [simp]:
  "isCameraOn (startClock t s) = isCameraOn s"
  "stream (startClock t s) = stream s"
  "hasAnimationStarted (startClock t s) = hasAnimationStarted s"
  "disengageCount (startClock t s) = disengageCount s"
  "closeFrameCount (startClock t s) = closeFrameCount s"
  "missCount (startClock t s) = missCount s"
  "autoCaptureFrameCount (startClock t s) = autoCaptureFrameCount s"
  "hasAutoCaptured (startClock t s) = hasAutoCaptured s"
  "captureRequests (startClock t s) = captureRequests s"
  "guideHighlighted (startClock t s) = guideHighlighted s"
  "lastLandmarks (startClock t s) = lastLandmarks s"
  by (simp_all add: startClock_def)

lemma applyDetection_empty_guide:
  "\<not> hasAnimationStarted s \<Longrightarrow>
   applyDetection t [] s =
     (if lastLandmarks s \<noteq> None then
        (if missCount s + 1 > 45 then s\<lparr> missCount := missCount s + 1, lastLandmarks := None \<rparr>
         else s\<lparr> missCount := missCount s + 1 \<rparr>)
      else if guideHighlighted s then s\<lparr> guideHighlighted := False, closeFrameCount := 0 \<rparr>
      else s)"
  by (simp add: applyDetection_def Let_def limits)

lemma applyDetection_null_guide:
  "\<not> hasAnimationStarted s \<Longrightarrow>
   applyDetection t (None # rest) s = s\<lparr> lastLandmarks := Some (None # rest), missCount := 0 \<rparr>"
  by (simp add: applyDetection_def Let_def)

lemma step_guide_no_verdict:
  assumes "\<not> hasAnimationStarted s" "primaryVerdict f = None"
  shows "\<not> hasAnimationStarted (fst (renderLoop f s))"
proof (cases "isCameraOn s")
  case False
  then show ?thesis using assms(1) by (simp add: step_off)
next
  case True
  from primaryVerdict_NoneD[OF assms(2)] consider
    "readiness f \<noteq> Ready" | "readiness f = Ready" "detection f = DetectThrows"
    | "readiness f = Ready" "detection f = DetectResult []"
    | rest where "readiness f = Ready" "detection f = DetectResult (None # rest)"
    by (cases "readiness f = Ready") auto
  then show ?thesis
  proof cases
    case 1
    then show ?thesis using assms(1) by (simp add: step_not_ready)
  next
    case 2
    then show ?thesis using assms(1) by (simp add: step_throws[OF True])
  next
    case 3
    then show ?thesis using assms(1)
      by (simp add: step_ready[OF True 3] applyDetection_empty_guide)
  next
    case 4
    then show ?thesis using assms(1)
      by (simp add: step_ready[OF True 4] applyDetection_null_guide)
  qed
qed

lemma closeUnalignedFrameD:
  "closeUnalignedFrame f \<Longrightarrow> \<exists>v. primaryVerdict f = Some v \<and> isClose v \<and> \<not> isAligned v"
  by (auto simp: closeUnalignedFrame_def split: option.splits)

lemma guide_close_run:
  "isCameraOn s \<Longrightarrow> \<not> hasAnimationStarted s \<Longrightarrow> \<forall>f\<in>set fs. closeUnalignedFrame f \<Longrightarrow>
   closeFrameCount s + length fs < 6 \<Longrightarrow>
   isCameraOn (runFrames fs s) \<and> \<not> hasAnimationStarted (runFrames fs s) \<and>
   closeFrameCount (runFrames fs s) = closeFrameCount s + length fs"
proof (induction fs arbitrary: s)
  case Nil
  then show ?case by simp
next
  case (Cons f fs)
  from Cons.prems(3) obtain v where v: "primaryVerdict f = Some v" "isClose v" "\<not> isAligned v"
    using closeUnalignedFrameD[of f] by auto
  let ?s = "fst (renderLoop f s)"
  from step_guide_verdict(1)[OF Cons.prems(1,2) v(1)] v(2,3) Cons.prems(4)
  have g: "\<not> hasAnimationStarted ?s" by simp
  from step_guide_verdict(3)[OF Cons.prems(1,2) v(1) g] v(2)
  have c: "closeFrameCount ?s = closeFrameCount s + 1" by simp
  from renderLoop_camera[OF Cons.prems(1), of f] have cam: "isCameraOn ?s" by simp
  from Cons.IH[OF cam g] Cons.prems(3,4) c
  show ?case unfolding runFrames_Cons[OF Cons.prems(1)] by simp
qed

lemma closeFrameD: "closeFrame f \<Longrightarrow> \<exists>v. primaryVerdict f = Some v \<and> isClose v"
  by (auto simp: closeFrame_def split: option.splits)

lemma notCloseFrameD: "notCloseFrame f \<Longrightarrow> \<exists>v. primaryVerdict f = Some v \<and> \<not> isClose v"
  by (auto simp: notCloseFrame_def split: option.splits)

lemma noFaceFrameD:
  "noFaceFrame f \<Longrightarrow>
   readiness f = Ready \<and>
   (detection f = DetectResult [] \<or> (\<exists>rest. detection f = DetectResult (None # rest)))"
  by (auto simp: noFaceFrame_def split: detection.splits list.splits option.splits)

lemma step_locked_notclose:
  assumes "isCameraOn s" "hasAnimationStarted s" "notCloseFrame f"
  shows "fst (renderLoop f s) =
     (if disengageCount s + 1 > 12
      then (seen f s)\<lparr> autoCaptureFrameCount := 0, hasAnimationStarted := False,
                        animationStart := None, disengageCount := 0, closeFrameCount := 0,
                        lastLandmarks := None, missCount := 0, guideHighlighted := False \<rparr>
      else (seen f s)\<lparr> disengageCount := disengageCount s + 1, autoCaptureFrameCount := 0 \<rparr>)"
proof -
  from notCloseFrameD[OF assms(3)] obtain v where v: "primaryVerdict f = Some v" "\<not> isClose v"
    by blast
  show ?thesis
    using assms(2) v(2)
    by (simp add: step_verdict[OF assms(1) v(1)] lockedUpdate_def revertToGuide_def Let_def limits)
qed

lemma disengage_locked:
  "hasAnimationStarted s \<Longrightarrow>
   disengage s =
     (if disengageCount s + 1 > 12
      then s\<lparr> hasAnimationStarted := False, animationStart := None, disengageCount := 0,
              closeFrameCount := 0, lastLandmarks := None, missCount := 0,
              guideHighlighted := False \<rparr>
      else s\<lparr> disengageCount := disengageCount s + 1 \<rparr>)"
  by (simp add: disengage_def revertToGuide_def Let_def limits)

lemma step_locked_null:
  assumes "isCameraOn s" "hasAnimationStarted s" "readiness f = Ready"
    "detection f = DetectResult (None # rest)"
  shows "fst (renderLoop f s) = disengage (seen f s)"
  using assms(2)
  by (simp add: step_ready[OF assms(1,3,4)] applyDetection_def seen_def detectedFaces_def
      assms(4) Let_def)

lemma step_locked_empty:
  assumes "isCameraOn s" "hasAnimationStarted s" "readiness f = Ready"
    "detection f = DetectResult []" "lastLandmarks s \<noteq> None"
  shows "fst (renderLoop f s) =
     (let s2 = disengage ((startClock (now f) s)\<lparr> missCount := missCount s + 1 \<rparr>)
      in if missCount s2 > 45 then s2\<lparr> lastLandmarks := None \<rparr> else s2)"
  using assms(2,5)
  by (simp add: step_ready[OF assms(1,3,4)] applyDetection_def Let_def limits)

lemma step_locked_disengaging:
  assumes inv: "sessionInv s" and locked: "hasAnimationStarted s"
    and fr: "notCloseFrame f \<or> noFaceFrame f"
  shows "(disengageCount s < 12 \<longrightarrow>
            hasAnimationStarted (fst (renderLoop f s)) \<and>
            disengageCount (fst (renderLoop f s)) = disengageCount s + 1) \<and>
         (disengageCount s = 12 \<longrightarrow>
            \<not> hasAnimationStarted (fst (renderLoop f s)) \<and>
            disengageCount (fst (renderLoop f s)) = 0 \<and>
            closeFrameCount (fst (renderLoop f s)) = 0 \<and>
            missCount (fst (renderLoop f s)) = 0 \<and>
            lastLandmarks (fst (renderLoop f s)) = None \<and>
            animationStart (fst (renderLoop f s)) = None) \<and>
         (notCloseFrame f \<longrightarrow> autoCaptureFrameCount (fst (renderLoop f s)) = 0) \<and>
         (noFaceFrame f \<longrightarrow>
            autoCaptureFrameCount (fst (renderLoop f s)) = autoCaptureFrameCount s)"
proof -
  from inv have cam: "isCameraOn s" by (simp add: sessionInv_def)
  from inv locked have ll: "lastLandmarks s \<noteq> None" and mc: "missCount s \<le> disengageCount s"
    and dc: "disengageCount s \<le> 12"
    by (simp_all add: sessionInv_def limits)
  have excl: "\<not> (notCloseFrame f \<and> noFaceFrame f)"
    by (auto simp: notCloseFrame_def noFaceFrame_def primaryVerdict_def
        split: option.splits detection.splits list.splits if_splits)
  from fr consider (nc) "notCloseFrame f" "\<not> noFaceFrame f"
    | (empty) "readiness f = Ready" "detection f = DetectResult []" "\<not> notCloseFrame f"
    | (null) rest where "readiness f = Ready" "detection f = DetectResult (None # rest)"
        "\<not> notCloseFrame f"
    using excl noFaceFrameD[of f] by blast
  then show ?thesis
  proof cases
    case nc
    then show ?thesis using locked dc
      by (simp add: step_locked_notclose[OF cam locked nc(1)])
  next
    case empty
    then show ?thesis using mc dc locked
      by (simp add: step_locked_empty[OF cam locked empty(1,2) ll] disengage_locked Let_def)
  next
    case null
    then show ?thesis using locked
      by (simp add: step_locked_null[OF cam locked null(1,2)] disengage_locked)
  qed
qed

lemma locked_disengaging_run:
  "sessionInv s \<Longrightarrow> hasAnimationStarted s \<Longrightarrow> \<forall>f\<in>set fs. notCloseFrame f \<or> noFaceFrame f \<Longrightarrow>
   disengageCount s + length fs \<le> 12 \<Longrightarrow>
   sessionInv (runFrames fs s) \<and> hasAnimationStarted (runFrames fs s) \<and>
   disengageCount (runFrames fs s) = disengageCount s + length fs"
proof (induction fs arbitrary: s)
  case Nil
  then show ?case by simp
next
  case (Cons f fs)
  let ?s = "fst (renderLoop f s)"
  from Cons.prems(1) have cam: "isCameraOn s" by (simp add: sessionInv_def)
  from Cons.prems(3) have fr: "notCloseFrame f \<or> noFaceFrame f" by simp
  from step_locked_disengaging[OF Cons.prems(1,2) fr] Cons.prems(4)
  have l: "hasAnimationStarted ?s" and d: "disengageCount ?s = disengageCount s + 1" by simp_all
  from Cons.IH[OF sessionInv_step[OF Cons.prems(1)] l] Cons.prems(3,4) d
  show ?case unfolding runFrames_Cons[OF cam] by simp
qed

lemma step_guide_disengaging:
  assumes "\<not> hasAnimationStarted s" "notCloseFrame f \<or> noFaceFrame f"
  shows "\<not> hasAnimationStarted (fst (renderLoop f s))"
proof (cases "primaryVerdict f")
  case None
  from step_guide_no_verdict[OF assms(1) None] show ?thesis .
next
  case (Some v)
  with assms(2) have nc: "\<not> isClose v"
    by (auto simp: notCloseFrame_def noFaceFrame_def primaryVerdict_def
        split: detection.splits list.splits option.splits if_splits)
  with primaryVerdict_aligned_close[OF Some] have na: "\<not> isAligned v" by blast
  show ?thesis
  proof (cases "isCameraOn s")
    case True
    from step_guide_verdict(1)[OF True assms(1) Some] nc na show ?thesis by simp
  next
    case False
    then show ?thesis using assms(1) by (simp add: step_off)
  qed
qed

lemma guide_disengaging_run:
  "\<not> hasAnimationStarted s \<Longrightarrow> \<forall>f\<in>set fs. notCloseFrame f \<or> noFaceFrame f \<Longrightarrow>
   \<not> hasAnimationStarted (runFrames fs s)"
proof (cases "isCameraOn s")
  case False
  assume "\<not> hasAnimationStarted s"
  with False show ?thesis by (simp add: runFrames_off)
next
  case True
  assume "\<not> hasAnimationStarted s" "\<forall>f\<in>set fs. notCloseFrame f \<or> noFaceFrame f"
  with True show ?thesis
  proof (induction fs arbitrary: s)
    case Nil
    then show ?case by simp
  next
    case (Cons f fs)
    from Cons.prems(3) have fr: "notCloseFrame f \<or> noFaceFrame f" by simp
    from renderLoop_camera[OF Cons.prems(1), of f] have cam: "isCameraOn (fst (renderLoop f s))"
      by simp
    from Cons.IH[OF cam step_guide_disengaging[OF Cons.prems(2) fr]] Cons.prems(3)
    show ?case unfolding runFrames_Cons[OF Cons.prems(1)] by simp
  qed
qed

section \<open>Disengaging\<close>

lemma sessionInv_reachable: "sessionInv (runFrames history (startCamera Started s0))"
  by (rule sessionInv_run) (rule sessionInv_start)

text \<open>
  C4. In a session, while the mesh is unlocked, a frame whose face is not close or on
  which no face is found adds one to \<open>disengageCount\<close>, and the machine stays unlocked
  exactly when the new count does not exceed 12; a frame whose face is not close also
  sets \<open>autoCaptureFrameCount\<close> to 0. Counted from zero, up to 12 such frames in a row
  leave the mesh unlocked with the count equal to their number, and 13 or more revert to
  the guide.
\<close>

theorem locked_disengage_reverts:
  assumes reach: "s = runFrames history (startCamera Started s0)"
    and locked: "hasAnimationStarted s"
  shows "(notCloseFrame f \<or> noFaceFrame f \<longrightarrow>
            hasAnimationStarted (fst (renderLoop f s)) = (disengageCount s + 1 \<le> 12) \<and>
            (disengageCount s + 1 \<le> 12 \<longrightarrow>
               disengageCount (fst (renderLoop f s)) = disengageCount s + 1) \<and>
            (notCloseFrame f \<longrightarrow> autoCaptureFrameCount (fst (renderLoop f s)) = 0)) \<and>
         (disengageCount s = 0 \<and> (\<forall>g\<in>set fs. notCloseFrame g \<or> noFaceFrame g) \<longrightarrow>
            (length fs \<le> 12 \<longrightarrow>
               hasAnimationStarted (runFrames fs s) \<and>
               disengageCount (runFrames fs s) = length fs) \<and>
            (length fs \<ge> 13 \<longrightarrow> \<not> hasAnimationStarted (runFrames fs s)))"
proof -
  have inv: "sessionInv s" unfolding reach by (rule sessionInv_reachable)
  from inv locked have dc: "disengageCount s \<le> 12" by (simp add: sessionInv_def limits)
  have one: "notCloseFrame f \<or> noFaceFrame f \<longrightarrow>
            hasAnimationStarted (fst (renderLoop f s)) = (disengageCount s + 1 \<le> 12) \<and>
            (disengageCount s + 1 \<le> 12 \<longrightarrow>
               disengageCount (fst (renderLoop f s)) = disengageCount s + 1) \<and>
            (notCloseFrame f \<longrightarrow> autoCaptureFrameCount (fst (renderLoop f s)) = 0)"
  proof
    assume fr: "notCloseFrame f \<or> noFaceFrame f"
    from step_locked_disengaging[OF inv locked fr] dc
    show "hasAnimationStarted (fst (renderLoop f s)) = (disengageCount s + 1 \<le> 12) \<and>
            (disengageCount s + 1 \<le> 12 \<longrightarrow>
               disengageCount (fst (renderLoop f s)) = disengageCount s + 1) \<and>
            (notCloseFrame f \<longrightarrow> autoCaptureFrameCount (fst (renderLoop f s)) = 0)"
      by (cases "disengageCount s = 12") auto
  qed
  have many: "disengageCount s = 0 \<and> (\<forall>g\<in>set fs. notCloseFrame g \<or> noFaceFrame g) \<longrightarrow>
            (length fs \<le> 12 \<longrightarrow>
               hasAnimationStarted (runFrames fs s) \<and>
               disengageCount (runFrames fs s) = length fs) \<and>
            (length fs \<ge> 13 \<longrightarrow> \<not> hasAnimationStarted (runFrames fs s))"
  proof (intro impI conjI)
    assume h: "disengageCount s = 0 \<and> (\<forall>g\<in>set fs. notCloseFrame g \<or> noFaceFrame g)"
    assume len: "length fs \<le> 12"
    from locked_disengaging_run[OF inv locked, of fs] h len
    show "hasAnimationStarted (runFrames fs s)" by simp
  next
    assume h: "disengageCount s = 0 \<and> (\<forall>g\<in>set fs. notCloseFrame g \<or> noFaceFrame g)"
    assume len: "length fs \<le> 12"
    from locked_disengaging_run[OF inv locked, of fs] h len
    show "disengageCount (runFrames fs s) = length fs" by simp
  next
    assume h: "disengageCount s = 0 \<and> (\<forall>g\<in>set fs. notCloseFrame g \<or> noFaceFrame g)"
    assume len: "13 \<le> length fs"
    then obtain g gs where dr: "drop 12 fs = g # gs"
      by (cases "drop 12 fs") simp_all
    have split: "fs = take 12 fs @ g # gs" using dr by (metis append_take_drop_id)
    have sub: "set (take 12 fs) \<subseteq> set fs" "set (g # gs) \<subseteq> set fs"
      using dr set_take_subset[of 12 fs] set_drop_subset[of 12 fs] by auto
    let ?t = "runFrames (take 12 fs) s"
    from h sub have all12: "\<forall>x\<in>set (take 12 fs). notCloseFrame x \<or> noFaceFrame x" by blast
    from h sub have allrest: "\<forall>x\<in>set (g # gs). notCloseFrame x \<or> noFaceFrame x" by blast
    from len have l12: "length (take 12 fs) = 12" by simp
    from locked_disengaging_run[OF inv locked all12] h l12
    have t: "sessionInv ?t" "hasAnimationStarted ?t" "disengageCount ?t = 12" by simp_all
    from t(1) have camt: "isCameraOn ?t" by (simp add: sessionInv_def)
    from allrest have frg: "notCloseFrame g \<or> noFaceFrame g" by simp
    from step_locked_disengaging[OF t(1,2) frg] t(3)
    have guide: "\<not> hasAnimationStarted (fst (renderLoop g ?t))" by simp
    from allrest have "\<forall>x\<in>set gs. notCloseFrame x \<or> noFaceFrame x" by simp
    from guide_disengaging_run[OF guide this]
    have "\<not> hasAnimationStarted (runFrames (g # gs) ?t)"
      unfolding runFrames_Cons[OF camt] .
    moreover have "runFrames fs s = runFrames (g # gs) ?t"
      using split runFrames_append[of "take 12 fs" "g # gs" s] by metis
    ultimately show "\<not> hasAnimationStarted (runFrames fs s)" by (simp del: runFrames.simps)
  qed
  from one many show ?thesis by (rule conjI)
qed

lemma lockedSample_eval:
  "lockedSample = \<lparr> isCameraOn = True, stream = True,
      lastLandmarks = Some [Some alignedFace], missCount = 0, animationStart = Some 1,
      disengageCount = 0, closeFrameCount = 0, hasAnimationStarted = True,
      guideHighlighted = False, hasAutoCaptured = False, autoCaptureFrameCount = 0,
      captureRequests = [] \<rparr>"
  by (simp add: lockedSample_def alignedSample_def sampleFrame_def mounted_def renderLoop_def
      startClock_def applyDetection_def guideUpdate_def sample_verdicts limits Let_def)

lemma sample_frames:
  "closeFrame closeSample" "closeUnalignedFrame closeSample" "notCloseFrame farSample"
  "noFaceFrame emptySample" "emptyFrame emptySample" "throwingFrame throwSample"
  "primaryVerdict alignedSample = Some \<lparr> isAligned = True, isClose = True \<rparr>"
  by (simp_all add: closeFrame_def closeUnalignedFrame_def notCloseFrame_def noFaceFrame_def
      emptyFrame_def throwingFrame_def primaryVerdict_def closeSample_def farSample_def
      emptySample_def throwSample_def alignedSample_def sampleFrame_def sample_verdicts)

lemma highlightedSample_eval:
  "highlightedSample = \<lparr> isCameraOn = True, stream = True,
      lastLandmarks = Some [Some closeFace], missCount = 0, animationStart = Some 1,
      disengageCount = 0, closeFrameCount = 1, hasAnimationStarted = False,
      guideHighlighted = True, hasAutoCaptured = False, autoCaptureFrameCount = 0,
      captureRequests = [] \<rparr>"
  by (simp add: highlightedSample_def closeSample_def sampleFrame_def mounted_def renderLoop_def
      startClock_def applyDetection_def guideUpdate_def sample_verdicts limits Let_def)

lemma lostSample_eval:
  "lostSample = \<lparr> isCameraOn = True, stream = True,
      lastLandmarks = None, missCount = 46, animationStart = Some 1,
      disengageCount = 0, closeFrameCount = 1, hasAnimationStarted = False,
      guideHighlighted = True, hasAutoCaptured = False, autoCaptureFrameCount = 0,
      captureRequests = [] \<rparr>"
proof -
  have "lostSample = runFrames (replicate 46 emptySample) highlightedSample"
    using runFrames_append[of "[closeSample]" "replicate 46 emptySample"
        "startCamera Started mounted"]
    by (simp add: lostSample_def highlightedSample_def del: runFrames.simps startCamera.simps)
  then show ?thesis unfolding highlightedSample_eval by code_simp
qed

lemma trackedSample_eval:
  "trackedSample = \<lparr> isCameraOn = True, stream = True,
      lastLandmarks = Some [Some closeFace], missCount = 0, animationStart = Some 1,
      disengageCount = 0, closeFrameCount = 0, hasAnimationStarted = True,
      guideHighlighted = False, hasAutoCaptured = False, autoCaptureFrameCount = 1,
      captureRequests = [] \<rparr>"
  by (simp add: trackedSample_def alignedSample_def closeSample_def sampleFrame_def mounted_def
      renderLoop_def startClock_def applyDetection_def guideUpdate_def lockedUpdate_def
      sample_verdicts limits Let_def)

lemma missedSample_eval:
  "missedSample = \<lparr> isCameraOn = True, stream = True,
      lastLandmarks = Some [Some closeFace], missCount = 1, animationStart = Some 1,
      disengageCount = 1, closeFrameCount = 0, hasAnimationStarted = True,
      guideHighlighted = False, hasAutoCaptured = False, autoCaptureFrameCount = 1,
      captureRequests = [] \<rparr>"
  by (simp add: missedSample_def alignedSample_def closeSample_def emptySample_def
      sampleFrame_def mounted_def renderLoop_def startClock_def applyDetection_def
      guideUpdate_def lockedUpdate_def disengage_def sample_verdicts limits Let_def)

theorem locked_disengage_reverts_witness:
  "hasAnimationStarted lockedSample \<and> disengageCount lockedSample = 0 \<and>
   noFaceFrame emptySample \<and> notCloseFrame farSample \<and>
   hasAnimationStarted (fst (renderLoop farSample lockedSample)) \<and>
   disengageCount (fst (renderLoop farSample lockedSample)) = 1 \<and>
   autoCaptureFrameCount (fst (renderLoop farSample lockedSample)) = 0 \<and>
   hasAnimationStarted (runFrames (replicate 12 emptySample) lockedSample) \<and>
   disengageCount (runFrames (replicate 12 emptySample) lockedSample) = 12 \<and>
   \<not> hasAnimationStarted (runFrames (replicate 13 farSample) lockedSample)"
proof -
  have r: "lockedSample = runFrames [alignedSample] (startCamera Started mounted)"
    by (simp only: lockedSample_def)
  have l: "hasAnimationStarted lockedSample" and d: "disengageCount lockedSample = 0"
    by (simp_all add: lockedSample_eval)
  note t = locked_disengage_reverts[OF r l]
  have a12: "\<forall>g\<in>set (replicate 12 emptySample). notCloseFrame g \<or> noFaceFrame g"
    and a13: "\<forall>g\<in>set (replicate 13 farSample). notCloseFrame g \<or> noFaceFrame g"
    by (simp_all add: sample_frames)
  from t[of farSample "[]"] d sample_frames(3)
  have one: "hasAnimationStarted (fst (renderLoop farSample lockedSample)) \<and>
   disengageCount (fst (renderLoop farSample lockedSample)) = 1 \<and>
   autoCaptureFrameCount (fst (renderLoop farSample lockedSample)) = 0" by simp
  from t[of farSample "replicate 12 emptySample"] d a12
  have twelve: "hasAnimationStarted (runFrames (replicate 12 emptySample) lockedSample) \<and>
   disengageCount (runFrames (replicate 12 emptySample) lockedSample) = 12"
    by (simp del: runFrames.simps)
  from t[of farSample "replicate 13 farSample"] d a13
  have thirteen: "\<not> hasAnimationStarted (runFrames (replicate 13 farSample) lockedSample)"
    by (simp del: runFrames.simps)
  from l d sample_frames(3,4) one twelve thirteen show ?thesis by blast
qed

section \<open>The one-shot capture\<close>

lemma locked_close_run:
  "isCameraOn s \<Longrightarrow> hasAnimationStarted s \<Longrightarrow> \<forall>f\<in>set fs. closeFrame f \<Longrightarrow>
   hasAutoCaptured s \<or> autoCaptureFrameCount s < 60 \<Longrightarrow>
   isCameraOn (runFrames fs s) \<and> hasAnimationStarted (runFrames fs s) \<and>
   disengageCount (runFrames fs s) = (if fs = [] then disengageCount s else 0) \<and>
   (hasAutoCaptured s \<longrightarrow>
      hasAutoCaptured (runFrames fs s) \<and> captureRequests (runFrames fs s) = captureRequests s) \<and>
   (\<not> hasAutoCaptured s \<and> autoCaptureFrameCount s + length fs < 60 \<longrightarrow>
      \<not> hasAutoCaptured (runFrames fs s) \<and>
      autoCaptureFrameCount (runFrames fs s) = autoCaptureFrameCount s + length fs \<and>
      captureRequests (runFrames fs s) = captureRequests s) \<and>
   (\<not> hasAutoCaptured s \<and> autoCaptureFrameCount s + length fs \<ge> 60 \<longrightarrow>
      hasAutoCaptured (runFrames fs s) \<and>
      captureRequests (runFrames fs s) = captureRequests s @ [True])"
proof (induction fs arbitrary: s)
  case Nil
  then show ?case by auto
next
  case (Cons f fs)
  let ?s = "fst (renderLoop f s)"
  from Cons.prems(3) have cf: "closeFrame f" and rest: "\<forall>g\<in>set fs. closeFrame g" by simp_all
  note st = step_locked_close[OF Cons.prems(1,2) cf]
  from st Cons.prems(1,2) have cam: "isCameraOn ?s" and lk: "hasAnimationStarted ?s"
    and dz: "disengageCount ?s = 0"
    by (simp_all split: if_splits)
  from st Cons.prems(4) have ok: "hasAutoCaptured ?s \<or> autoCaptureFrameCount ?s < 60"
    by (simp split: if_splits)
  note ih = Cons.IH[OF cam lk rest ok]
  consider (latched) "hasAutoCaptured s"
    | (fires) "\<not> hasAutoCaptured s" "autoCaptureFrameCount s + 1 \<ge> 60"
    | (counts) "\<not> hasAutoCaptured s" "autoCaptureFrameCount s + 1 < 60"
    by linarith
  then show ?case
  proof cases
    case latched
    with st have "hasAutoCaptured ?s" "captureRequests ?s = captureRequests s" by simp_all
    with ih latched dz show ?thesis unfolding runFrames_Cons[OF Cons.prems(1)] by simp
  next
    case fires
    with st have "hasAutoCaptured ?s" "captureRequests ?s = captureRequests s @ [True]"
      by simp_all
    with ih fires dz show ?thesis unfolding runFrames_Cons[OF Cons.prems(1)] by simp
  next
    case counts
    with st have "\<not> hasAutoCaptured ?s" "captureRequests ?s = captureRequests s"
      "autoCaptureFrameCount ?s = autoCaptureFrameCount s + 1"
      by simp_all
    with ih counts dz show ?thesis unfolding runFrames_Cons[OF Cons.prems(1)] by simp
  qed
qed

lemma latch_applyDetection:
  "hasAutoCaptured s \<Longrightarrow>
   hasAutoCaptured (applyDetection t fl s) \<and>
   captureRequests (applyDetection t fl s) = captureRequests s"
  by (simp add: applyDetection_def guideUpdate_def lockedUpdate_def disengage_def
      revertToGuide_def Let_def split: list.splits option.splits)

lemma latch_step:
  "hasAutoCaptured s \<Longrightarrow>
   hasAutoCaptured (fst (renderLoop f s)) \<and>
   captureRequests (fst (renderLoop f s)) = captureRequests s"
  by (simp add: renderLoop_def Let_def latch_applyDetection
      split: readiness.splits detection.splits)

lemma latch_run:
  "hasAutoCaptured s \<Longrightarrow>
   hasAutoCaptured (runFrames fs s) \<and> captureRequests (runFrames fs s) = captureRequests s"
proof (cases "isCameraOn s")
  case False
  assume "hasAutoCaptured s"
  with False show ?thesis by (simp add: runFrames_off)
next
  case True
  assume "hasAutoCaptured s"
  with True show ?thesis
  proof (induction fs arbitrary: s)
    case Nil
    then show ?case by simp
  next
    case (Cons f fs)
    from renderLoop_camera[OF Cons.prems(1), of f] have cam: "isCameraOn (fst (renderLoop f s))"
      by simp
    from Cons.IH[OF cam] latch_step[OF Cons.prems(2), of f]
    show ?case unfolding runFrames_Cons[OF Cons.prems(1)] by simp
  qed
qed

lemma noFace_keeps_capture_count:
  assumes "noFaceFrame f"
  shows "autoCaptureFrameCount (fst (renderLoop f s)) = autoCaptureFrameCount s"
proof (cases "isCameraOn s")
  case False
  then show ?thesis by (simp add: step_off)
next
  case True
  from noFaceFrameD[OF assms] consider
    "readiness f = Ready" "detection f = DetectResult []"
    | rest where "readiness f = Ready" "detection f = DetectResult (None # rest)"
    by blast
  then show ?thesis
  proof cases
    case 1
    show ?thesis
      by (simp add: step_ready[OF True 1] applyDetection_def disengage_def revertToGuide_def
          Let_def)
  next
    case 2
    show ?thesis
      by (simp add: step_ready[OF True 2] applyDetection_def disengage_def revertToGuide_def
          Let_def)
  qed
qed

text \<open>
  C1, as the code has it. While the mesh is unlocked and the capture has not fired, a
  frame with a close face sets \<open>disengageCount\<close> to 0 and adds one to
  \<open>autoCaptureFrameCount\<close>; when the new count has reached 60 the latch
  \<open>hasAutoCaptured\<close> is set and \<^verbatim>\<open>captureScreenshot\<close> is called with auto-upload,
  otherwise neither happens. Once the latch is set no frame of any kind makes another
  call or clears the latch. The frame on which the capture fires is counted by the
  stored \<open>autoCaptureFrameCount\<close>, which is below 60 in every state of a session
  with the latch clear and which a frame without a face leaves as it is: a run of close
  frames that starts with the stored count \<open>k\<close> has made exactly one call once it is
  \<open>60 - k\<close> frames long, and none before, however long it goes on; with the stored
  count 0 that is the 60th frame.
\<close>

theorem auto_capture_fires_once:
  "(isCameraOn s \<and> hasAnimationStarted s \<and> \<not> hasAutoCaptured s \<and> closeFrame f \<longrightarrow>
      disengageCount (fst (renderLoop f s)) = 0 \<and>
      autoCaptureFrameCount (fst (renderLoop f s)) = autoCaptureFrameCount s + 1 \<and>
      hasAutoCaptured (fst (renderLoop f s)) = (autoCaptureFrameCount s + 1 \<ge> 60) \<and>
      captureRequests (fst (renderLoop f s)) =
        captureRequests s @ (if autoCaptureFrameCount s + 1 \<ge> 60 then [True] else [])) \<and>
   (isCameraOn s \<and> hasAnimationStarted s \<and> \<not> hasAutoCaptured s \<and>
    autoCaptureFrameCount s < 60 \<and> (\<forall>g\<in>set fs. closeFrame g) \<longrightarrow>
      hasAutoCaptured (runFrames fs s) = (autoCaptureFrameCount s + length fs \<ge> 60) \<and>
      captureRequests (runFrames fs s) =
        captureRequests s @ (if autoCaptureFrameCount s + length fs \<ge> 60 then [True] else [])) \<and>
   (hasAutoCaptured s \<longrightarrow>
      hasAutoCaptured (runFrames gs s) \<and> captureRequests (runFrames gs s) = captureRequests s) \<and>
   (\<not> hasAutoCaptured (runFrames history (startCamera Started s0)) \<longrightarrow>
      autoCaptureFrameCount (runFrames history (startCamera Started s0)) < 60) \<and>
   (noFaceFrame f \<longrightarrow>
      autoCaptureFrameCount (fst (renderLoop f s)) = autoCaptureFrameCount s)"
proof (intro conjI impI)
  assume h: "isCameraOn s \<and> hasAnimationStarted s \<and> \<not> hasAutoCaptured s \<and> closeFrame f"
  then have st: "fst (renderLoop f s) =
     (if autoCaptureFrameCount s + 1 \<ge> 60
      then (seen f s)\<lparr> disengageCount := 0, closeFrameCount := 0,
                        autoCaptureFrameCount := autoCaptureFrameCount s + 1,
                        hasAutoCaptured := True,
                        captureRequests := captureRequests s @ [True] \<rparr>
      else (seen f s)\<lparr> disengageCount := 0, closeFrameCount := 0,
                        autoCaptureFrameCount := autoCaptureFrameCount s + 1 \<rparr>)"
    using step_locked_close[of s f] by simp
  show "disengageCount (fst (renderLoop f s)) = 0" by (simp add: st)
  show "autoCaptureFrameCount (fst (renderLoop f s)) = autoCaptureFrameCount s + 1"
    by (simp add: st)
  from h show "hasAutoCaptured (fst (renderLoop f s)) = (autoCaptureFrameCount s + 1 \<ge> 60)"
    by (simp add: st)
  show "captureRequests (fst (renderLoop f s)) =
        captureRequests s @ (if autoCaptureFrameCount s + 1 \<ge> 60 then [True] else [])"
    by (simp add: st)
next
  assume h: "isCameraOn s \<and> hasAnimationStarted s \<and> \<not> hasAutoCaptured s \<and>
    autoCaptureFrameCount s < 60 \<and> (\<forall>g\<in>set fs. closeFrame g)"
  then have run: "(autoCaptureFrameCount s + length fs < 60 \<longrightarrow>
      \<not> hasAutoCaptured (runFrames fs s) \<and> captureRequests (runFrames fs s) = captureRequests s) \<and>
    (autoCaptureFrameCount s + length fs \<ge> 60 \<longrightarrow>
      hasAutoCaptured (runFrames fs s) \<and>
      captureRequests (runFrames fs s) = captureRequests s @ [True])"
    using locked_close_run[of s fs] by simp
  from h run show "hasAutoCaptured (runFrames fs s) = (autoCaptureFrameCount s + length fs \<ge> 60)"
    by (cases "autoCaptureFrameCount s + length fs \<ge> 60") (simp_all del: runFrames.simps)
  from h run show "captureRequests (runFrames fs s) =
        captureRequests s @ (if autoCaptureFrameCount s + length fs \<ge> 60 then [True] else [])"
    by (cases "autoCaptureFrameCount s + length fs \<ge> 60") (simp_all del: runFrames.simps)
next
  assume "hasAutoCaptured s"
  from latch_run[OF this] show "hasAutoCaptured (runFrames gs s)" by simp
next
  assume "hasAutoCaptured s"
  from latch_run[OF this] show "captureRequests (runFrames gs s) = captureRequests s" by simp
next
  assume "\<not> hasAutoCaptured (runFrames history (startCamera Started s0))"
  with sessionInv_reachable[of history s0]
  show "autoCaptureFrameCount (runFrames history (startCamera Started s0)) < 60"
    by (simp add: sessionInv_def limits del: runFrames.simps startCamera.simps)
next
  assume "noFaceFrame f"
  then show "autoCaptureFrameCount (fst (renderLoop f s)) = autoCaptureFrameCount s"
    by (rule noFace_keeps_capture_count)
qed

theorem auto_capture_fires_once_witness:
  "isCameraOn lockedSample \<and> hasAnimationStarted lockedSample \<and>
   \<not> hasAutoCaptured lockedSample \<and> autoCaptureFrameCount lockedSample = 0 \<and>
   closeFrame closeSample \<and> noFaceFrame emptySample \<and>
   autoCaptureFrameCount (fst (renderLoop closeSample lockedSample)) = 1 \<and>
   captureRequests (runFrames (replicate 59 closeSample) lockedSample) = [] \<and>
   captureRequests (runFrames (replicate 60 closeSample) lockedSample) = [True] \<and>
   captureRequests (runFrames (replicate 100 closeSample) lockedSample) = [True] \<and>
   captureRequests
     (runFrames (replicate 40 farSample) (runFrames (replicate 60 closeSample) lockedSample)) =
     [True] \<and>
   autoCaptureFrameCount lockedSample < 60 \<and>
   autoCaptureFrameCount trackedSample = 1 \<and>
   autoCaptureFrameCount (fst (renderLoop emptySample trackedSample)) = 1 \<and>
   captureRequests (runFrames (replicate 58 closeSample) missedSample) = [] \<and>
   captureRequests (runFrames (replicate 59 closeSample) missedSample) = [True]"
proof -
  have s: "isCameraOn lockedSample" "hasAnimationStarted lockedSample"
    "\<not> hasAutoCaptured lockedSample" "autoCaptureFrameCount lockedSample = 0"
    "captureRequests lockedSample = []"
    by (simp_all add: lockedSample_eval)
  have m: "isCameraOn missedSample" "hasAnimationStarted missedSample"
    "\<not> hasAutoCaptured missedSample" "autoCaptureFrameCount missedSample = 1"
    "captureRequests missedSample = []"
    by (simp_all add: missedSample_eval)
  have t: "autoCaptureFrameCount trackedSample = 1" by (simp add: trackedSample_eval)
  note c = sample_frames(1)
  note e = sample_frames(4)
  note inst = auto_capture_fires_once[where history = "[alignedSample]" and ?s0.0 = mounted]
  from inst[of lockedSample closeSample "[]" "[]"] s c
  have one: "autoCaptureFrameCount (fst (renderLoop closeSample lockedSample)) = 1" by simp
  from inst[of lockedSample closeSample "replicate 59 closeSample" "[]"] s c
  have r59: "captureRequests (runFrames (replicate 59 closeSample) lockedSample) = []"
    by (simp del: runFrames.simps startCamera.simps)
  from inst[of lockedSample closeSample "replicate 60 closeSample" "[]"] s c
  have r60: "captureRequests (runFrames (replicate 60 closeSample) lockedSample) = [True]"
    and l60: "hasAutoCaptured (runFrames (replicate 60 closeSample) lockedSample)"
    by (simp_all del: runFrames.simps startCamera.simps)
  from inst[of lockedSample closeSample "replicate 100 closeSample" "[]"] s c
  have r100: "captureRequests (runFrames (replicate 100 closeSample) lockedSample) = [True]"
    by (simp del: runFrames.simps startCamera.simps)
  from inst[of "runFrames (replicate 60 closeSample) lockedSample" closeSample "[]"
      "replicate 40 farSample"] l60 r60
  have after: "captureRequests
     (runFrames (replicate 40 farSample) (runFrames (replicate 60 closeSample) lockedSample)) =
     [True]"
    by (simp del: runFrames.simps startCamera.simps)
  from inst[of lockedSample closeSample "[]" "[]"] s
  have bound: "autoCaptureFrameCount lockedSample < 60"
    by (simp add: lockedSample_def del: runFrames.simps startCamera.simps)
  from inst[of trackedSample emptySample "[]" "[]"] e t
  have kept: "autoCaptureFrameCount (fst (renderLoop emptySample trackedSample)) = 1" by simp
  from inst[of missedSample closeSample "replicate 58 closeSample" "[]"] m c
  have m58: "captureRequests (runFrames (replicate 58 closeSample) missedSample) = []"
    by (simp del: runFrames.simps startCamera.simps)
  from inst[of missedSample closeSample "replicate 59 closeSample" "[]"] m c
  have m59: "captureRequests (runFrames (replicate 59 closeSample) missedSample) = [True]"
    by (simp del: runFrames.simps startCamera.simps)
  from s c e one r59 r60 r100 after bound t kept m58 m59 show ?thesis by blast
qed

text \<open>
  C1, as the specification words it, fails: a session that has seen an aligned frame, a
  close frame and a frame without landmarks has the mesh unlocked and the latch clear,
  and of the close frames that follow the 59th, not the 60th, makes the capture call.
\<close>

theorem auto_capture_frame_60_counterexample:
  "hasAnimationStarted missedSample \<and> \<not> hasAutoCaptured missedSample \<and>
   captureRequests missedSample = [] \<and> closeFrame closeSample \<and>
   captureRequests (runFrames (replicate 59 closeSample) missedSample) = [True]"
proof -
  have m: "isCameraOn missedSample" "hasAnimationStarted missedSample"
    "\<not> hasAutoCaptured missedSample" "autoCaptureFrameCount missedSample = 1"
    "captureRequests missedSample = []"
    by (simp_all add: missedSample_eval)
  note c = sample_frames(1)
  from locked_close_run[of missedSample "replicate 59 closeSample"] m c
  have "captureRequests (runFrames (replicate 59 closeSample) missedSample) = [True]"
    by (simp del: runFrames.simps)
  with m c show ?thesis by simp
qed

section \<open>Unlocking the mesh\<close>

text \<open>
  C3. In the guide phase, a frame with a verdict unlocks the mesh exactly when the
  verdict is aligned or the close count, updated by this frame, has reached 6; on
  unlocking \<open>closeFrameCount\<close> and \<open>disengageCount\<close> are 0 and
  \<open>animationStart\<close> is the time of the frame. A frame without a verdict does not
  unlock. Counted from zero, fewer than six frames that are close and not aligned leave
  the guide phase in place with the count equal to their number, and the sixth unlocks.
\<close>

theorem guide_unlocks:
  "(isCameraOn s \<and> \<not> hasAnimationStarted s \<and> primaryVerdict f = Some v \<longrightarrow>
      hasAnimationStarted (fst (renderLoop f s)) =
        (isAligned v \<or> (if isClose v then closeFrameCount s + 1 else 0) \<ge> 6) \<and>
      (hasAnimationStarted (fst (renderLoop f s)) \<longrightarrow>
         closeFrameCount (fst (renderLoop f s)) = 0 \<and>
         disengageCount (fst (renderLoop f s)) = 0 \<and>
         animationStart (fst (renderLoop f s)) = Some (now f))) \<and>
   (\<not> hasAnimationStarted s \<and> primaryVerdict f = None \<longrightarrow>
      \<not> hasAnimationStarted (fst (renderLoop f s))) \<and>
   (isCameraOn s \<and> \<not> hasAnimationStarted s \<and> closeFrameCount s = 0 \<and>
    (\<forall>g\<in>set fs. closeUnalignedFrame g) \<longrightarrow>
      (length fs < 6 \<longrightarrow>
         \<not> hasAnimationStarted (runFrames fs s) \<and> closeFrameCount (runFrames fs s) = length fs) \<and>
      (length fs = 6 \<longrightarrow>
         hasAnimationStarted (runFrames fs s) \<and> closeFrameCount (runFrames fs s) = 0 \<and>
         disengageCount (runFrames fs s) = 0 \<and>
         animationStart (runFrames fs s) = Some (now (last fs))))"
proof (intro conjI impI)
  assume h: "isCameraOn s \<and> \<not> hasAnimationStarted s \<and> primaryVerdict f = Some v"
  then have c: "isCameraOn s" and g: "\<not> hasAnimationStarted s" and v: "primaryVerdict f = Some v"
    by simp_all
  from step_guide_verdict(1)[OF c g v]
  show "hasAnimationStarted (fst (renderLoop f s)) =
        (isAligned v \<or> (if isClose v then closeFrameCount s + 1 else 0) \<ge> 6)" .
  assume l: "hasAnimationStarted (fst (renderLoop f s))"
  from step_guide_verdict(2)[OF c g v l]
  show "closeFrameCount (fst (renderLoop f s)) = 0"
    "disengageCount (fst (renderLoop f s)) = 0"
    "animationStart (fst (renderLoop f s)) = Some (now f)" by simp_all
next
  assume "\<not> hasAnimationStarted s \<and> primaryVerdict f = None"
  then show "\<not> hasAnimationStarted (fst (renderLoop f s))"
    using step_guide_no_verdict[of s f] by simp
next
  assume h: "isCameraOn s \<and> \<not> hasAnimationStarted s \<and> closeFrameCount s = 0 \<and>
    (\<forall>g\<in>set fs. closeUnalignedFrame g)"
  assume len: "length fs < 6"
  from h len guide_close_run[of s fs]
  show "\<not> hasAnimationStarted (runFrames fs s)" "closeFrameCount (runFrames fs s) = length fs"
    by simp_all
next
  assume h: "isCameraOn s \<and> \<not> hasAnimationStarted s \<and> closeFrameCount s = 0 \<and>
    (\<forall>g\<in>set fs. closeUnalignedFrame g)"
  assume len: "length fs = 6"
  then have ne: "fs \<noteq> []" by auto
  then have split: "fs = butlast fs @ [last fs]" by simp
  let ?t = "runFrames (butlast fs) s"
  let ?g = "last fs"
  have sub: "set (butlast fs) \<subseteq> set fs" by (auto dest: in_set_butlastD)
  with h have allb: "\<forall>g\<in>set (butlast fs). closeUnalignedFrame g" by blast
  from len have lb: "length (butlast fs) = 5" by simp
  from h allb lb guide_close_run[of s "butlast fs"]
  have t: "isCameraOn ?t" "\<not> hasAnimationStarted ?t" "closeFrameCount ?t = 5" by simp_all
  from h ne have "closeUnalignedFrame ?g" by simp
  from closeUnalignedFrameD[OF this] obtain v where
    v: "primaryVerdict ?g = Some v" "isClose v" "\<not> isAligned v" by blast
  from step_guide_verdict(1)[OF t(1,2) v(1)] v(2) t(3)
  have l: "hasAnimationStarted (fst (renderLoop ?g ?t))" by simp
  note fields = step_guide_verdict(2)[OF t(1,2) v(1) l]
  have "runFrames (butlast fs @ [last fs]) s = runFrames [?g] ?t" by (rule runFrames_append)
  with split have "runFrames fs s = runFrames [?g] ?t" by simp
  also have "\<dots> = fst (renderLoop ?g ?t)" unfolding runFrames_Cons[OF t(1)] by simp
  finally have eq: "runFrames fs s = fst (renderLoop ?g ?t)" .
  from l show "hasAnimationStarted (runFrames fs s)" by (simp only: eq)
  from fields show "closeFrameCount (runFrames fs s) = 0" by (simp only: eq)
  from fields show "disengageCount (runFrames fs s) = 0" by (simp only: eq)
  from fields show "animationStart (runFrames fs s) = Some (now (last fs))" by (simp only: eq)
qed

theorem guide_unlocks_witness:
  "isCameraOn (startCamera Started mounted) \<and>
   \<not> hasAnimationStarted (startCamera Started mounted) \<and>
   closeFrameCount (startCamera Started mounted) = 0 \<and>
   closeUnalignedFrame closeSample \<and>
   primaryVerdict alignedSample = Some \<lparr> isAligned = True, isClose = True \<rparr> \<and>
   primaryVerdict throwSample = None \<and>
   hasAnimationStarted (fst (renderLoop alignedSample (startCamera Started mounted))) \<and>
   \<not> hasAnimationStarted (fst (renderLoop throwSample (startCamera Started mounted))) \<and>
   \<not> hasAnimationStarted (runFrames (replicate 5 closeSample) (startCamera Started mounted)) \<and>
   closeFrameCount (runFrames (replicate 5 closeSample) (startCamera Started mounted)) = 5 \<and>
   hasAnimationStarted (runFrames (replicate 6 closeSample) (startCamera Started mounted)) \<and>
   animationStart (runFrames (replicate 6 closeSample) (startCamera Started mounted)) = Some 1"
proof -
  let ?s = "startCamera Started mounted"
  have s: "isCameraOn ?s" "\<not> hasAnimationStarted ?s" "closeFrameCount ?s = 0"
    by (simp_all add: mounted_def)
  note c = sample_frames(2)
  note v = sample_frames(7)
  have n: "primaryVerdict throwSample = None"
    by (simp add: primaryVerdict_def throwSample_def sampleFrame_def)
  have nw: "now (last (replicate 6 closeSample)) = 1"
    by (simp add: closeSample_def sampleFrame_def)
  from guide_unlocks[of ?s alignedSample "\<lparr> isAligned = True, isClose = True \<rparr>" "[]"] s v
  have a: "hasAnimationStarted (fst (renderLoop alignedSample ?s))" by simp
  from guide_unlocks[of ?s throwSample "\<lparr> isAligned = True, isClose = True \<rparr>" "[]"] s n
  have t: "\<not> hasAnimationStarted (fst (renderLoop throwSample ?s))" by simp
  from guide_unlocks[of ?s throwSample "\<lparr> isAligned = True, isClose = True \<rparr>"
      "replicate 5 closeSample"] s c
  have five: "\<not> hasAnimationStarted (runFrames (replicate 5 closeSample) ?s)"
    "closeFrameCount (runFrames (replicate 5 closeSample) ?s) = 5"
    by (simp_all del: runFrames.simps startCamera.simps)
  from guide_unlocks[of ?s throwSample "\<lparr> isAligned = True, isClose = True \<rparr>"
      "replicate 6 closeSample"] s c nw
  have six: "hasAnimationStarted (runFrames (replicate 6 closeSample) ?s)"
    "animationStart (runFrames (replicate 6 closeSample) ?s) = Some 1"
    by (simp_all del: runFrames.simps startCamera.simps)
  from s c v n a t five six show ?thesis by blast
qed

section \<open>Aligned faces are close\<close>

text \<open>
  C10. A verdict of \<^verbatim>\<open>evaluateAlignment\<close> that is aligned is also close; so a frame
  with an aligned face, met while the mesh is unlocked, sets \<open>disengageCount\<close> to 0.
\<close>

theorem aligned_is_close:
  "(isAligned (evaluateAlignment landmarks) \<longrightarrow> isClose (evaluateAlignment landmarks)) \<and>
   (isCameraOn s \<and> hasAnimationStarted s \<and> primaryVerdict f = Some v \<and> isAligned v \<longrightarrow>
      disengageCount (fst (renderLoop f s)) = 0)"
proof (intro conjI impI)
  assume "isAligned (evaluateAlignment landmarks)"
  then show "isClose (evaluateAlignment landmarks)" by (rule evaluateAlignment_aligned_close)
next
  assume h: "isCameraOn s \<and> hasAnimationStarted s \<and> primaryVerdict f = Some v \<and> isAligned v"
  then have "isClose v" using primaryVerdict_aligned_close[of f v] by simp
  with h have "closeFrame f" by (simp add: closeFrame_def)
  with h show "disengageCount (fst (renderLoop f s)) = 0"
    using step_locked_close[of s f] by (simp split: if_splits)
qed

theorem aligned_is_close_witness:
  "isAligned (evaluateAlignment alignedFace) \<and> isClose (evaluateAlignment alignedFace) \<and>
   isCameraOn lockedSample \<and> hasAnimationStarted lockedSample \<and>
   primaryVerdict alignedSample = Some \<lparr> isAligned = True, isClose = True \<rparr> \<and>
   disengageCount (fst (renderLoop alignedSample lockedSample)) = 0"
proof -
  have a: "isAligned (evaluateAlignment alignedFace)"
    by (simp add: sample_verdicts)
  have s: "isCameraOn lockedSample" "hasAnimationStarted lockedSample"
    by (simp_all add: lockedSample_eval)
  note v = sample_frames(7)
  from aligned_is_close[of alignedFace lockedSample alignedSample
      "\<lparr> isAligned = True, isClose = True \<rparr>"] a s v
  show ?thesis by simp
qed

section \<open>Reverting to the guide\<close>

text \<open>
  C2, on the code. A session sees one aligned frame and one close frame, so that the
  mesh is unlocked and \<open>autoCaptureFrameCount\<close> is 1, and then frames without any
  detection. After 12 of them the mesh is still unlocked; the 13th reverts to the guide
  through \<^verbatim>\<open>revertToGuide\<close>, which clears the close, disengage and miss counts, the
  retained landmarks and the animation start, and leaves \<open>autoCaptureFrameCount\<close> at 1.
\<close>

theorem tracking_loss_keeps_capture_count:
  "hasAnimationStarted (runFrames (replicate 12 emptySample) trackedSample) \<and>
   \<not> hasAnimationStarted (runFrames (replicate 13 emptySample) trackedSample) \<and>
   closeFrameCount (runFrames (replicate 13 emptySample) trackedSample) = 0 \<and>
   disengageCount (runFrames (replicate 13 emptySample) trackedSample) = 0 \<and>
   missCount (runFrames (replicate 13 emptySample) trackedSample) = 0 \<and>
   lastLandmarks (runFrames (replicate 13 emptySample) trackedSample) = None \<and>
   animationStart (runFrames (replicate 13 emptySample) trackedSample) = None \<and>
   autoCaptureFrameCount (runFrames (replicate 13 emptySample) trackedSample) = 1"
  unfolding trackedSample_eval by code_simp

section \<open>Frames on which the detection throws\<close>

text \<open>
  C5, as the code has it. While the camera is on, a frame on which the detection throws
  is skipped: phase, counters, latch, retained landmarks and capture calls are as
  before, and only \<open>animationStart\<close> is set to the time of the frame when it was
  empty. The iteration requests the next frame, and the loop goes on with the frames
  that follow.
\<close>

theorem throwing_frame_skipped:
  "isCameraOn s \<and> throwingFrame f \<longrightarrow>
     hasAnimationStarted (fst (renderLoop f s)) = hasAnimationStarted s \<and>
     closeFrameCount (fst (renderLoop f s)) = closeFrameCount s \<and>
     disengageCount (fst (renderLoop f s)) = disengageCount s \<and>
     missCount (fst (renderLoop f s)) = missCount s \<and>
     autoCaptureFrameCount (fst (renderLoop f s)) = autoCaptureFrameCount s \<and>
     hasAutoCaptured (fst (renderLoop f s)) = hasAutoCaptured s \<and>
     lastLandmarks (fst (renderLoop f s)) = lastLandmarks s \<and>
     guideHighlighted (fst (renderLoop f s)) = guideHighlighted s \<and>
     captureRequests (fst (renderLoop f s)) = captureRequests s \<and>
     animationStart (fst (renderLoop f s)) =
       (if animationStart s = None then Some (now f) else animationStart s) \<and>
     snd (renderLoop f s) \<and>
     runFrames (f # fs) s = runFrames fs (fst (renderLoop f s))"
proof
  assume h: "isCameraOn s \<and> throwingFrame f"
  then have cam: "isCameraOn s" and r: "readiness f = Ready" and d: "detection f = DetectThrows"
    by (simp_all add: throwingFrame_def)
  note st = step_throws[OF cam r d]
  have an: "animationStart (startClock (now f) s) =
       (if animationStart s = None then Some (now f) else animationStart s)"
    by (simp add: startClock_def)
  from an show "hasAnimationStarted (fst (renderLoop f s)) = hasAnimationStarted s \<and>
     closeFrameCount (fst (renderLoop f s)) = closeFrameCount s \<and>
     disengageCount (fst (renderLoop f s)) = disengageCount s \<and>
     missCount (fst (renderLoop f s)) = missCount s \<and>
     autoCaptureFrameCount (fst (renderLoop f s)) = autoCaptureFrameCount s \<and>
     hasAutoCaptured (fst (renderLoop f s)) = hasAutoCaptured s \<and>
     lastLandmarks (fst (renderLoop f s)) = lastLandmarks s \<and>
     guideHighlighted (fst (renderLoop f s)) = guideHighlighted s \<and>
     captureRequests (fst (renderLoop f s)) = captureRequests s \<and>
     animationStart (fst (renderLoop f s)) =
       (if animationStart s = None then Some (now f) else animationStart s) \<and>
     snd (renderLoop f s) \<and>
     runFrames (f # fs) s = runFrames fs (fst (renderLoop f s))"
    unfolding runFrames_Cons[OF cam] by (simp add: st)
qed

theorem throwing_frame_skipped_witness:
  "isCameraOn lockedSample \<and> throwingFrame throwSample \<and>
   disengageCount (fst (renderLoop throwSample lockedSample)) = 0 \<and>
   missCount (fst (renderLoop throwSample lockedSample)) = 0 \<and>
   hasAnimationStarted (fst (renderLoop throwSample lockedSample)) \<and>
   snd (renderLoop throwSample lockedSample) \<and>
   runFrames [throwSample, emptySample] lockedSample =
     runFrames [emptySample] (fst (renderLoop throwSample lockedSample))"
proof -
  have s: "isCameraOn lockedSample" "disengageCount lockedSample = 0"
    "missCount lockedSample = 0" "hasAnimationStarted lockedSample"
    by (simp_all add: lockedSample_eval)
  note t = sample_frames(6)
  from throwing_frame_skipped[of lockedSample throwSample "[emptySample]"] s t
  show ?thesis by (simp del: runFrames.simps)
qed

text \<open>
  C5, as the specification words it, fails: after one aligned frame, a frame on which
  the detection throws leaves the miss and disengage counts at 0, while a frame with an
  empty detection result raises both to 1.
\<close>

theorem throwing_frame_counterexample:
  "throwingFrame throwSample \<and> emptyFrame emptySample \<and> hasAnimationStarted lockedSample \<and>
   disengageCount (fst (renderLoop throwSample lockedSample)) = 0 \<and>
   missCount (fst (renderLoop throwSample lockedSample)) = 0 \<and>
   disengageCount (fst (renderLoop emptySample lockedSample)) = 1 \<and>
   missCount (fst (renderLoop emptySample lockedSample)) = 1 \<and>
   fst (renderLoop throwSample lockedSample) \<noteq> fst (renderLoop emptySample lockedSample)"
proof -
  have a: "disengageCount (fst (renderLoop throwSample lockedSample)) = 0"
     "missCount (fst (renderLoop throwSample lockedSample)) = 0"
     "disengageCount (fst (renderLoop emptySample lockedSample)) = 1"
     "missCount (fst (renderLoop emptySample lockedSample)) = 1"
    by (simp_all add: lockedSample_eval throwSample_def emptySample_def sampleFrame_def
        renderLoop_def startClock_def applyDetection_def disengage_def revertToGuide_def
        limits Let_def)
  then have "fst (renderLoop throwSample lockedSample) \<noteq> fst (renderLoop emptySample lockedSample)"
    by auto
  moreover have "hasAnimationStarted lockedSample" by (simp add: lockedSample_eval)
  ultimately show ?thesis using a sample_frames(5,6) by simp
qed

section \<open>The close count in the guide phase\<close>

text \<open>
  C6, as the code has it. In a session, in the guide phase: a frame whose face is not
  close sets \<open>closeFrameCount\<close> to 0 and stays in the guide phase. A frame with an
  empty detection result leaves \<open>closeFrameCount\<close> as it is while landmarks are
  retained, and drops the retained landmarks when it is the 46th miss in a row; only
  when no landmarks are retained does it set \<open>closeFrameCount\<close> to 0. A frame whose
  primary entry is null leaves \<open>closeFrameCount\<close> as it is.
\<close>

theorem guide_close_count:
  assumes reach: "s = runFrames history (startCamera Started s0)"
    and guide: "\<not> hasAnimationStarted s"
  shows "(notCloseFrame f \<longrightarrow>
            closeFrameCount (fst (renderLoop f s)) = 0 \<and>
            \<not> hasAnimationStarted (fst (renderLoop f s))) \<and>
         (emptyFrame f \<and> lastLandmarks s \<noteq> None \<longrightarrow>
            closeFrameCount (fst (renderLoop f s)) = closeFrameCount s \<and>
            lastLandmarks (fst (renderLoop f s)) =
              (if missCount s + 1 > 45 then None else lastLandmarks s)) \<and>
         (emptyFrame f \<and> lastLandmarks s = None \<longrightarrow>
            closeFrameCount (fst (renderLoop f s)) = 0) \<and>
         (noFaceFrame f \<and> \<not> emptyFrame f \<longrightarrow>
            closeFrameCount (fst (renderLoop f s)) = closeFrameCount s)"
proof -
  have inv: "sessionInv s" unfolding reach by (rule sessionInv_reachable)
  then have cam: "isCameraOn s" by (simp add: sessionInv_def)
  from inv guide have hl: "\<not> guideHighlighted s \<longrightarrow> closeFrameCount s = 0"
    by (simp add: sessionInv_def)
  have far: "notCloseFrame f \<longrightarrow>
            closeFrameCount (fst (renderLoop f s)) = 0 \<and>
            \<not> hasAnimationStarted (fst (renderLoop f s))"
  proof
    assume nc: "notCloseFrame f"
    from notCloseFrameD[OF nc] obtain v where v: "primaryVerdict f = Some v" "\<not> isClose v"
      by blast
    from step_guide_disengaging[OF guide, of f] nc
    have g: "\<not> hasAnimationStarted (fst (renderLoop f s))" by simp
    from step_guide_verdict(3)[OF cam guide v(1) g] v(2) g
    show "closeFrameCount (fst (renderLoop f s)) = 0 \<and>
            \<not> hasAnimationStarted (fst (renderLoop f s))" by simp
  qed
  have kept: "emptyFrame f \<and> lastLandmarks s \<noteq> None \<longrightarrow>
            closeFrameCount (fst (renderLoop f s)) = closeFrameCount s \<and>
            lastLandmarks (fst (renderLoop f s)) =
              (if missCount s + 1 > 45 then None else lastLandmarks s)"
  proof
    assume h: "emptyFrame f \<and> lastLandmarks s \<noteq> None"
    then have r: "readiness f = Ready" and d: "detection f = DetectResult []"
      by (simp_all add: emptyFrame_def)
    from h guide show "closeFrameCount (fst (renderLoop f s)) = closeFrameCount s \<and>
            lastLandmarks (fst (renderLoop f s)) =
              (if missCount s + 1 > 45 then None else lastLandmarks s)"
      by (simp add: step_ready[OF cam r d] applyDetection_empty_guide)
  qed
  have gone: "emptyFrame f \<and> lastLandmarks s = None \<longrightarrow>
            closeFrameCount (fst (renderLoop f s)) = 0"
  proof
    assume h: "emptyFrame f \<and> lastLandmarks s = None"
    then have r: "readiness f = Ready" and d: "detection f = DetectResult []"
      by (simp_all add: emptyFrame_def)
    from h guide hl show "closeFrameCount (fst (renderLoop f s)) = 0"
      by (simp add: step_ready[OF cam r d] applyDetection_empty_guide)
  qed
  have null: "noFaceFrame f \<and> \<not> emptyFrame f \<longrightarrow>
            closeFrameCount (fst (renderLoop f s)) = closeFrameCount s"
  proof
    assume h: "noFaceFrame f \<and> \<not> emptyFrame f"
    with noFaceFrameD[of f] obtain rest where r: "readiness f = Ready"
      and d: "detection f = DetectResult (None # rest)"
      by (auto simp: emptyFrame_def)
    from guide show "closeFrameCount (fst (renderLoop f s)) = closeFrameCount s"
      by (simp add: step_ready[OF cam r d] applyDetection_null_guide)
  qed
  from far kept gone null show ?thesis by blast
qed

theorem guide_close_count_witness:
  "\<not> hasAnimationStarted highlightedSample \<and> closeFrameCount highlightedSample = 1 \<and>
   notCloseFrame farSample \<and> emptyFrame emptySample \<and>
   lastLandmarks highlightedSample \<noteq> None \<and>
   closeFrameCount (fst (renderLoop farSample highlightedSample)) = 0 \<and>
   closeFrameCount (fst (renderLoop emptySample highlightedSample)) = 1 \<and>
   \<not> hasAnimationStarted lostSample \<and> closeFrameCount lostSample = 1 \<and>
   lastLandmarks lostSample = None \<and>
   closeFrameCount (fst (renderLoop emptySample lostSample)) = 0"
proof -
  have h: "highlightedSample = runFrames [closeSample] (startCamera Started mounted)"
    by (simp only: highlightedSample_def)
  have l: "lostSample =
      runFrames (closeSample # replicate 46 emptySample) (startCamera Started mounted)"
    by (simp only: lostSample_def)
  have hs: "\<not> hasAnimationStarted highlightedSample" "closeFrameCount highlightedSample = 1"
    "lastLandmarks highlightedSample \<noteq> None"
    by (simp_all add: highlightedSample_eval)
  have ls: "\<not> hasAnimationStarted lostSample" "closeFrameCount lostSample = 1"
    "lastLandmarks lostSample = None"
    by (simp_all add: lostSample_eval)
  note fr = sample_frames(3,5)
  from guide_close_count[OF h hs(1), of farSample] fr
  have a: "closeFrameCount (fst (renderLoop farSample highlightedSample)) = 0" by simp
  from guide_close_count[OF h hs(1), of emptySample] fr hs
  have b: "closeFrameCount (fst (renderLoop emptySample highlightedSample)) = 1" by simp
  from guide_close_count[OF l ls(1), of emptySample] fr ls
  have c: "closeFrameCount (fst (renderLoop emptySample lostSample)) = 0" by simp
  from hs ls fr a b c show ?thesis by blast
qed

text \<open>
  C6, as the specification words it, fails: a session that has seen one close frame is
  in the guide phase with a close count of 1, and a frame with an empty detection result
  leaves the count at 1.
\<close>

theorem guide_close_count_counterexample:
  "\<not> hasAnimationStarted highlightedSample \<and> emptyFrame emptySample \<and>
   \<not> closeFrame emptySample \<and>
   closeFrameCount (fst (renderLoop emptySample highlightedSample)) \<noteq> 0"
proof -
  have "closeFrameCount (fst (renderLoop emptySample highlightedSample)) = 1"
    by (simp add: highlightedSample_eval emptySample_def sampleFrame_def renderLoop_def
        startClock_def applyDetection_def limits Let_def)
  moreover have "\<not> closeFrame emptySample"
    by (simp add: closeFrame_def primaryVerdict_def emptySample_def sampleFrame_def)
  moreover have "\<not> hasAnimationStarted highlightedSample"
    by (simp add: highlightedSample_eval)
  ultimately show ?thesis using sample_frames(5) by simp
qed

section \<open>Stopping and restarting\<close>

lemma stopCamera_active:
  "isCameraOn s \<or> stream s \<Longrightarrow> engagementReset (stopCamera s) \<and> \<not> isCameraOn (stopCamera s)"
  by (auto simp: stopCamera_def engagementReset_def)

lemma stopCamera_idle: "\<not> isCameraOn s \<Longrightarrow> \<not> stream s \<Longrightarrow> stopCamera s = s"
  by (simp add: stopCamera_def)

lemma startCamera_Started_reset: "engagementReset (startCamera Started s)"
  by (simp add: engagementReset_def)

lemma idle_or_reset_act:
  assumes "isCameraOn s \<or> stream s \<or> engagementReset s"
  shows "isCameraOn (act a s) \<or> stream (act a s) \<or> engagementReset (act a s)"
proof (cases a)
  case (StartCamera outcome)
  show ?thesis
  proof (cases outcome)
    case NotReady
    with StartCamera assms show ?thesis by simp
  next
    case MediaRefused
    with StartCamera assms stopCamera_active[of s] stopCamera_idle[of s] show ?thesis
      by (cases "isCameraOn s \<or> stream s") auto
  next
    case NoVideoElement
    with StartCamera assms show ?thesis by simp
  next
    case PlayFails
    with StartCamera stopCamera_active[of "s\<lparr> stream := True \<rparr>"] show ?thesis by simp
  next
    case Started
    with StartCamera show ?thesis by simp
  qed
next
  case StopCamera
  with assms stopCamera_active[of s] stopCamera_idle[of s] show ?thesis
    by (cases "isCameraOn s \<or> stream s") auto
next
  case (Frames fs)
  show ?thesis
  proof (cases "isCameraOn s")
    case True
    from runFrames_camera[OF True, of fs] Frames show ?thesis by simp
  next
    case False
    with Frames assms show ?thesis by (simp add: runFrames_off)
  qed
qed

lemma idle_or_reset_run:
  "isCameraOn s \<or> stream s \<or> engagementReset s \<Longrightarrow>
   isCameraOn (runActions as s) \<or> stream (runActions as s) \<or> engagementReset (runActions as s)"
proof (induction as arbitrary: s)
  case Nil
  then show ?case by simp
next
  case (Cons a as)
  from Cons.IH[OF idle_or_reset_act[OF Cons.prems, of a]] show ?case by simp
qed

lemma mounted_reset: "engagementReset mounted"
  by (simp add: engagementReset_def mounted_def)

text \<open>
  C8. Stopping a session (the camera is on or a stream is held) resets the engagement
  state and turns the camera off. After any history of starts, stops and frames of a
  mounted component, the state after \<^verbatim>\<open>stopCamera\<close> is reset. A successful
  \<^verbatim>\<open>startCamera\<close>, after a stop or otherwise, leaves the engagement state reset and
  the camera on.
\<close>

theorem stop_and_restart_reset:
  "(isCameraOn s \<or> stream s \<longrightarrow>
      engagementReset (stopCamera s) \<and> \<not> isCameraOn (stopCamera s)) \<and>
   engagementReset (stopCamera (runActions history mounted)) \<and>
   engagementReset (startCamera Started s) \<and> isCameraOn (startCamera Started s) \<and>
   engagementReset (startCamera Started (stopCamera s))"
proof (intro conjI impI)
  assume "isCameraOn s \<or> stream s"
  from stopCamera_active[OF this]
  show "engagementReset (stopCamera s)" "\<not> isCameraOn (stopCamera s)" by simp_all
next
  let ?t = "runActions history mounted"
  from idle_or_reset_run[of mounted history] mounted_reset
  have j: "isCameraOn ?t \<or> stream ?t \<or> engagementReset ?t" by simp
  show "engagementReset (stopCamera ?t)"
  proof (cases "isCameraOn ?t \<or> stream ?t")
    case True
    from stopCamera_active[OF True] show ?thesis by simp
  next
    case False
    with j stopCamera_idle[of ?t] show ?thesis by auto
  qed
next
  show "engagementReset (startCamera Started s)" by (rule startCamera_Started_reset)
  show "isCameraOn (startCamera Started s)" by simp
  show "engagementReset (startCamera Started (stopCamera s))" by (rule startCamera_Started_reset)
qed

theorem stop_and_restart_reset_witness:
  "isCameraOn trackedSample \<and> hasAnimationStarted trackedSample \<and>
   autoCaptureFrameCount trackedSample = 1 \<and> \<not> engagementReset trackedSample \<and>
   engagementReset (stopCamera trackedSample) \<and> \<not> isCameraOn (stopCamera trackedSample) \<and>
   engagementReset
     (stopCamera (runActions [StartCamera Started, Frames [alignedSample, closeSample]] mounted)) \<and>
   engagementReset (startCamera Started (stopCamera trackedSample))"
proof -
  have s: "isCameraOn trackedSample" "hasAnimationStarted trackedSample"
    "autoCaptureFrameCount trackedSample = 1" "\<not> engagementReset trackedSample"
    by (simp_all add: trackedSample_eval engagementReset_def)
  from stop_and_restart_reset[of trackedSample
      "[StartCamera Started, Frames [alignedSample, closeSample]]"] s
  show ?thesis by (simp del: runFrames.simps runActions.simps startCamera.simps)
qed

section \<open>Size and mirroring of the captured image\<close>

lemma ctx_restore_fields [simp]:
  "bitmap (ctx_restore c) = bitmap c"
  "canvasWidth (ctx_restore c) = canvasWidth c"
  "canvasHeight (ctx_restore c) = canvasHeight c"
  by (simp_all add: ctx_restore_def split: list.splits prod.splits)

lemma ctx_drawImage_fields [simp]:
  "canvasWidth (ctx_drawImage img dx dy dw dh c) = canvasWidth c"
  "canvasHeight (ctx_drawImage img dx dy dw dh c) = canvasHeight c"
  by (simp_all add: ctx_drawImage_def)

lemma prepared_fields:
  "canvasWidth (ctx_scale (- 1) 1 (ctx_save (setHeight h (setWidth w c0)))) = w"
  "canvasHeight (ctx_scale (- 1) 1 (ctx_save (setHeight h (setWidth w c0)))) = h"
  "scaleX (ctx_scale (- 1) 1 (ctx_save (setHeight h (setWidth w c0)))) = - 1"
  "scaleY (ctx_scale (- 1) 1 (ctx_save (setHeight h (setWidth w c0)))) = 1"
  by (simp_all add: ctx_scale_def ctx_save_def setHeight_def setWidth_def)

lemma mirrored_pixel:
  fixes W H u w :: real
  assumes c: "real (canvasWidth c) = W" "real (canvasHeight c) = H" "scaleX c = - 1" "scaleY c = 1"
    and pos: "0 < W" "0 < H" and u: "0 \<le> u" "u \<le> 1" and w: "0 \<le> w" "w \<le> 1"
  shows "bitmap (ctx_drawImage img (- W) 0 W H c) ((1 - u) * W) (w * H) = Some (colourAt img u w)"
proof -
  have x0: "0 \<le> (1 - u) * W" using u pos by simp
  have x1: "(1 - u) * W \<le> W" using u pos by (simp add: mult_left_le_one_le)
  have y0: "0 \<le> w * H" using w pos by simp
  have y1: "w * H \<le> H" using w pos by (simp add: mult_left_le_one_le)
  have ux: "((1 - u) * W / (- 1) - (- W)) / W = u" using pos by (simp add: field_simps)
  have wy: "(w * H / 1 - 0) / H = w" using pos by simp
  have inx: "- W \<le> (1 - u) * W / (- 1)" "(1 - u) * W / (- 1) \<le> - W + W"
    using x0 x1 by simp_all
  have iny: "0 \<le> w * H / 1" "w * H / 1 \<le> 0 + H" using y0 y1 by simp_all
  have "bitmap (ctx_drawImage img (- W) 0 W H c) ((1 - u) * W) (w * H) =
        Some (colourAt img (((1 - u) * W / (- 1) - (- W)) / W) ((w * H / 1 - 0) / H))"
    unfolding ctx_drawImage_def using c pos x0 x1 y0 y1 inx iny by simp
  then show ?thesis by (simp only: ux wy)
qed

lemma captureScreenshot_Some:
  assumes "captureScreenshot s env c0 = Some art"
  shows "\<exists>v. video env = Some v \<and> isCameraOn s \<and> imageWidth v \<noteq> 0 \<and> imageHeight v \<noteq> 0 \<and>
           contextAvailable env \<and> blobAvailable env \<and>
           artifactWidth art = imageWidth v \<and> artifactHeight art = imageHeight v \<and>
           (\<forall>u w. 0 \<le> u \<and> u \<le> 1 \<and> 0 \<le> w \<and> w \<le> 1 \<longrightarrow>
              artifactPixels art ((1 - u) * real (imageWidth v)) (w * real (imageHeight v)) =
                Some (colourAt v u w))"
proof (cases "video env")
  case None
  with assms show ?thesis by (simp add: captureScreenshot_def)
next
  case (Some v)
  let ?c3 = "ctx_scale (- 1) 1 (ctx_save (setHeight (imageHeight v) (setWidth (imageWidth v) c0)))"
  let ?W = "real (imageWidth v)" and ?H = "real (imageHeight v)"
  from assms Some have ok: "isCameraOn s" "imageWidth v \<noteq> 0" "imageHeight v \<noteq> 0"
    "contextAvailable env" "blobAvailable env"
    by (auto simp: captureScreenshot_def Let_def split: if_splits)
  with assms Some have art: "art = \<lparr> artifactWidth = imageWidth v, artifactHeight = imageHeight v,
      artifactPixels = bitmap (ctx_drawImage v (- ?W) 0 ?W ?H ?c3) \<rparr>"
    by (simp add: captureScreenshot_def Let_def prepared_fields)
  have pix: "\<forall>u w. 0 \<le> u \<and> u \<le> 1 \<and> 0 \<le> w \<and> w \<le> 1 \<longrightarrow>
              artifactPixels art ((1 - u) * ?W) (w * ?H) = Some (colourAt v u w)"
  proof (intro allI impI)
    fix u w :: real
    assume h: "0 \<le> u \<and> u \<le> 1 \<and> 0 \<le> w \<and> w \<le> 1"
    have "bitmap (ctx_drawImage v (- ?W) 0 ?W ?H ?c3) ((1 - u) * ?W) (w * ?H) =
          Some (colourAt v u w)"
      using ok h by (intro mirrored_pixel) (simp_all add: prepared_fields)
    then show "artifactPixels art ((1 - u) * ?W) (w * ?H) = Some (colourAt v u w)"
      by (simp add: art)
  qed
  from Some ok art pix show ?thesis by simp
qed

lemma captureScreenshot_None:
  "(captureScreenshot s env c0 = None) =
     (\<not> isCameraOn s \<or> \<not> contextAvailable env \<or> \<not> blobAvailable env \<or>
      (case video env of None \<Rightarrow> True | Some v \<Rightarrow> imageWidth v = 0 \<or> imageHeight v = 0))"
  by (simp add: captureScreenshot_def Let_def split: option.splits)

text \<open>
  C9. Whenever \<^verbatim>\<open>captureScreenshot\<close> produces an artifact, there is a video frame, the
  artifact has the width and the height of that frame, and the image is mirrored: the
  colour of the frame at the normalised position (u, w) is the colour of the artifact
  at the normalised position (1 - u, w), that is, at the pixel coordinates
  ((1 - u) * width, w * height). An artifact is produced exactly when the camera is
  on, the frame is not empty, and the context and the blob are delivered.
\<close>

theorem capture_mirrors:
  "(captureScreenshot s env c0 = Some art \<longrightarrow>
      (\<exists>v. video env = Some v \<and>
         artifactWidth art = imageWidth v \<and> artifactHeight art = imageHeight v \<and>
         (\<forall>u w. 0 \<le> u \<and> u \<le> 1 \<and> 0 \<le> w \<and> w \<le> 1 \<longrightarrow>
            artifactPixels art ((1 - u) * real (imageWidth v)) (w * real (imageHeight v)) =
              Some (colourAt v u w)))) \<and>
   ((captureScreenshot s env c0 \<noteq> None) =
      (isCameraOn s \<and> contextAvailable env \<and> blobAvailable env \<and>
       (\<exists>v. video env = Some v \<and> imageWidth v \<noteq> 0 \<and> imageHeight v \<noteq> 0)))"
proof (intro conjI impI)
  assume "captureScreenshot s env c0 = Some art"
  from captureScreenshot_Some[OF this]
  show "\<exists>v. video env = Some v \<and>
         artifactWidth art = imageWidth v \<and> artifactHeight art = imageHeight v \<and>
         (\<forall>u w. 0 \<le> u \<and> u \<le> 1 \<and> 0 \<le> w \<and> w \<le> 1 \<longrightarrow>
            artifactPixels art ((1 - u) * real (imageWidth v)) (w * real (imageHeight v)) =
              Some (colourAt v u w))"
    by blast
next
  show "(captureScreenshot s env c0 \<noteq> None) =
      (isCameraOn s \<and> contextAvailable env \<and> blobAvailable env \<and>
       (\<exists>v. video env = Some v \<and> imageWidth v \<noteq> 0 \<and> imageHeight v \<noteq> 0))"
    by (auto simp: captureScreenshot_None split: option.splits)
qed

theorem capture_mirrors_witness:
  "\<exists>art. captureScreenshot lockedSample sampleEnv sampleCanvas = Some art \<and>
     artifactWidth art = 4 \<and> artifactHeight art = 2 \<and>
     colourAt sampleVideo (3 / 4) (1 / 2) = 2 \<and> artifactPixels art 1 1 = Some 2 \<and>
     colourAt sampleVideo (1 / 4) (1 / 2) = 1 \<and> artifactPixels art 3 1 = Some 1"
proof -
  have "captureScreenshot lockedSample sampleEnv sampleCanvas \<noteq> None"
    using capture_mirrors[where s = lockedSample and env = sampleEnv and ?c0.0 = sampleCanvas,
        THEN conjunct2]
    by (simp add: lockedSample_eval sampleEnv_def sampleVideo_def)
  then obtain art where a: "captureScreenshot lockedSample sampleEnv sampleCanvas = Some art"
    by blast
  from capture_mirrors[of lockedSample sampleEnv sampleCanvas art] a
  have d: "artifactWidth art = 4" "artifactHeight art = 2"
    and p: "\<forall>u w. 0 \<le> u \<and> u \<le> 1 \<and> 0 \<le> w \<and> w \<le> 1 \<longrightarrow>
            artifactPixels art ((1 - u) * 4) (w * 2) = Some (colourAt sampleVideo u w)"
    by (simp_all add: sampleEnv_def sampleVideo_def)
  from p[rule_format, of "3 / 4" "1 / 2"] have p1: "artifactPixels art 1 1 = Some 2"
    by (simp add: sampleVideo_def)
  from p[rule_format, of "1 / 4" "1 / 2"] have p2: "artifactPixels art 3 1 = Some 1"
    by (simp add: sampleVideo_def)
  from a d p1 p2 show ?thesis by (simp add: sampleVideo_def)
qed

end
